theory Spec2Isabelle
  imports Complex_Main "HOL-Library.Monad_Syntax"
begin

section \<open>Moebius transformations of equirectangular images: the model\<close>

text \<open>
  A shallow embedding of \<^verbatim>\<open>sphere_transforms.py\<close>. The source is Python 2: on integers
  \<^verbatim>\<open>/\<close> is floor division (\<^verbatim>\<open>y_size = x_size/2\<close> is used as a \<^verbatim>\<open>range\<close> bound and as an
  image size), and \<^verbatim>\<open>round\<close> rounds halves away from zero. Python floats are modelled as
  \<^typ>\<open>real\<close> and Python complex numbers as \<^typ>\<open>complex\<close>: the arithmetic is exact.
  A Python exception is the value \<^term>\<open>None\<close>; each definition says which exception.
\<close>

type_synonym point2 = "real \<times> real"
type_synonym vec3 = "real \<times> real \<times> real"
type_synonym cp1 = "complex \<times> complex"
type_synonym matrix2 = "(complex \<times> complex) \<times> (complex \<times> complex)"
type_synonym colour = "int \<times> int \<times> int"

subsection \<open>Python primitives\<close>

text \<open>\<^verbatim>\<open>math.atan2(y, x)\<close>: the angle of the point \<open>(x, y)\<close> in \<open>(-pi, pi]\<close>, and 0 at the origin.\<close>

definition atan2 :: "real \<Rightarrow> real \<Rightarrow> real" where
  "atan2 y x =
     (if 0 < x then arctan (y / x)
      else if x < 0 then (if 0 \<le> y then arctan (y / x) + pi else arctan (y / x) - pi)
      else if 0 < y then pi / 2
      else if y < 0 then - (pi / 2)
      else 0)"

text \<open>Division of Python floats and complex numbers: ZeroDivisionError on a zero divisor.\<close>

definition py_div :: "real \<Rightarrow> real \<Rightarrow> real option" where
  "py_div a b = (if b = 0 then None else Some (a / b))"

definition py_cdiv :: "complex \<Rightarrow> complex \<Rightarrow> complex option" where
  "py_cdiv a b = (if b = 0 then None else Some (a / b))"

text \<open>\<^verbatim>\<open>a % b\<close> on floats: the result has the sign of the divisor; ZeroDivisionError on 0.\<close>

definition py_fmod :: "real \<Rightarrow> real \<Rightarrow> real option" where
  "py_fmod a b = (if b = 0 then None else Some (a - b * of_int \<lfloor>a / b\<rfloor>))"

text \<open>\<^verbatim>\<open>math.log(x)\<close>: ValueError unless \<open>0 < x\<close>.\<close>

definition py_log :: "real \<Rightarrow> real option" where
  "py_log x = (if 0 < x then Some (ln x) else None)"

text \<open>\<^verbatim>\<open>int(round(x))\<close> of Python 2: halves are rounded away from zero.\<close>

definition py_round :: "real \<Rightarrow> int" where
  "py_round x = (if 0 \<le> x then \<lfloor>x + 1 / 2\<rfloor> else \<lceil>x - 1 / 2\<rceil>)"

subsection \<open>Coordinate maps\<close>

text \<open>
  \<^verbatim>\<open>angles_from_pixel_coords\<close> divides by \<^verbatim>\<open>float(x_size)\<close> and by \<^verbatim>\<open>float(y_size-1)\<close>:
  ZeroDivisionError when either is zero.
\<close>

definition angles_from_pixel_coords :: "point2 \<Rightarrow> int \<Rightarrow> point2 option" where
  "angles_from_pixel_coords point x_size =
     (let y_size = x_size div 2 in
      do {
        a \<leftarrow> py_div ((fst point + 0.5) * 2 * pi) (real_of_int x_size);
        b \<leftarrow> py_div (snd point * pi) (real_of_int (y_size - 1));
        Some (a, b - 0.5 * pi)
      })"

definition pixel_coords_from_angles :: "point2 \<Rightarrow> int \<Rightarrow> point2" where
  "pixel_coords_from_angles point x_size =
     (let y_size = x_size div 2 in
      (fst point * real_of_int x_size / (2 * pi) - 0.5,
       (snd point + 0.5 * pi) * real_of_int (y_size - 1) / pi))"

definition angles_from_sphere :: "vec3 \<Rightarrow> point2" where
  "angles_from_sphere point =
     (case point of (x, y, z) \<Rightarrow>
        let longitude = atan2 y x;
            longitude = (if longitude < 0 then longitude + 2 * pi else longitude);
            r = sqrt (x * x + y * y);
            latitude = atan2 z r
        in (longitude, latitude))"

definition sphere_from_angles :: "point2 \<Rightarrow> vec3" where
  "sphere_from_angles point =
     (case point of (x, y) \<Rightarrow>
        let horiz_radius = cos y
        in (horiz_radius * cos x, horiz_radius * sin x, sin y))"

definition sphere_from_pixel_coords :: "point2 \<Rightarrow> int \<Rightarrow> vec3 option" where
  "sphere_from_pixel_coords point x_size =
     map_option sphere_from_angles (angles_from_pixel_coords point x_size)"

definition CP1_from_sphere :: "vec3 \<Rightarrow> cp1" where
  "CP1_from_sphere point =
     (case point of (x, y, z) \<Rightarrow>
        if z < 0 then (Complex x y, complex_of_real (1 - z))
        else (complex_of_real (1 + z), Complex x (- y)))"

definition sphere_from_CP1 :: "cp1 \<Rightarrow> vec3 option" where
  "sphere_from_CP1 point =
     (case point of (z1, z2) \<Rightarrow>
        if cmod z2 > cmod z1 then
          do {
            z \<leftarrow> py_cdiv z1 z2;
            let x = Re z;
            let y = Im z;
            let denom = 1 + x * x + y * y;
            Some (2 * x / denom, 2 * y / denom, (denom - 2) / denom)
          }
        else
          do {
            z \<leftarrow> map_option cnj (py_cdiv z2 z1);
            let x = Re z;
            let y = Im z;
            let denom = 1 + x * x + y * y;
            Some (2 * x / denom, 2 * y / denom, (2 - denom) / denom)
          })"

subsection \<open>Sampling\<close>

text \<open>
  \<^verbatim>\<open>clamp\<close> overwrites the two entries of the list it is given and returns it; every caller
  passes a fresh list, so the model returns the new pair. \<^verbatim>\<open>pt[0] % x_size\<close> raises
  ZeroDivisionError for \<open>x_size = 0\<close>; on integers Python's \<^verbatim>\<open>%\<close> is \<^term>\<open>(mod)\<close>.
\<close>

definition clamp :: "int \<times> int \<Rightarrow> int \<Rightarrow> (int \<times> int) option" where
  "clamp pt x_size =
     (let y_size = x_size div 2 in
      if x_size = 0 then None
      else
        let x = fst pt mod x_size;
            y = (if snd pt < 0 then 0
                 else if snd pt > y_size - 1 then y_size - 1
                 else snd pt)
        in Some (x, y))"

text \<open>
  The pixel-access object of an image (\<^verbatim>\<open>Image.load()\<close> of the imaging library): a grid of
  \<open>im_width\<close> columns and \<open>im_height\<close> rows of RGB triples. Reading outside the grid is
  an IndexError.
\<close>

record image =
  im_width :: int
  im_height :: int
  im_pixel :: "int \<Rightarrow> int \<Rightarrow> colour"

definition pixel_access :: "image \<Rightarrow> int \<times> int \<Rightarrow> colour option" where
  "pixel_access s_im pt =
     (if 0 \<le> fst pt \<and> fst pt < im_width s_im \<and> 0 \<le> snd pt \<and> snd pt < im_height s_im
      then Some (im_pixel s_im (fst pt) (snd pt))
      else None)"

text \<open>
  Modelled from the spec: the class \<^verbatim>\<open>vector\<close> of the module \<^verbatim>\<open>vectors_and_matrices\<close> is not
  among the sources; \<open>vector\<close> makes a 3-vector of numbers from a tuple.
\<close>

definition vector :: "colour \<Rightarrow> vec3" where
  "vector c = (case c of (r, g, b) \<Rightarrow> (real_of_int r, real_of_int g, real_of_int b))"

text \<open>
  Modelled from the spec: the product of a number and a \<^verbatim>\<open>vector\<close> (module
  \<^verbatim>\<open>vectors_and_matrices\<close>, not among the sources), componentwise.
\<close>

definition vector_scale :: "real \<Rightarrow> vec3 \<Rightarrow> vec3" where
  "vector_scale k v = (case v of (a, b, c) \<Rightarrow> (k * a, k * b, k * c))"

text \<open>
  Modelled from the spec: the sum of two \<^verbatim>\<open>vector\<close>s (module \<^verbatim>\<open>vectors_and_matrices\<close>, not
  among the sources), componentwise.
\<close>

definition vector_add :: "vec3 \<Rightarrow> vec3 \<Rightarrow> vec3" where
  "vector_add u v = (case u of (a, b, c) \<Rightarrow> case v of (d, e, f) \<Rightarrow> (a + d, b + e, c + f))"

text \<open>
  Modelled from the spec: the negation \<^verbatim>\<open>-r\<close> of a \<^verbatim>\<open>vector\<close> (module
  \<^verbatim>\<open>vectors_and_matrices\<close>, not among the sources), componentwise.
\<close>

definition vector_neg :: "vec3 \<Rightarrow> vec3" where
  "vector_neg v = (case v of (a, b, c) \<Rightarrow> (- a, - b, - c))"

text \<open>
  Modelled from the spec: \<^verbatim>\<open>dot\<close> (module \<^verbatim>\<open>vectors_and_matrices\<close>, not among the sources),
  the dot product of two 3-vectors.
\<close>

definition dot :: "vec3 \<Rightarrow> vec3 \<Rightarrow> real" where
  "dot u v = (case u of (a, b, c) \<Rightarrow> case v of (d, e, f) \<Rightarrow> a * d + b * e + c * f)"

text \<open>
  Modelled from the spec: \<^verbatim>\<open>cross\<close> (module \<^verbatim>\<open>vectors_and_matrices\<close>, not among the
  sources), the cross product of two 3-vectors.
\<close>

definition cross :: "vec3 \<Rightarrow> vec3 \<Rightarrow> vec3" where
  "cross u v =
     (case u of (a, b, c) \<Rightarrow> case v of (d, e, f) \<Rightarrow>
        (b * f - c * e, c * d - a * f, a * e - b * d))"

text \<open>
  Modelled from the spec: the method \<^verbatim>\<open>normalised\<close> of \<^verbatim>\<open>vector\<close> (module
  \<^verbatim>\<open>vectors_and_matrices\<close>, not among the sources), the vector divided by its Euclidean
  norm; ZeroDivisionError on the zero vector.
\<close>

definition normalised :: "vec3 \<Rightarrow> vec3 option" where
  "normalised v =
     (case v of (a, b, c) \<Rightarrow>
        let n = sqrt (a * a + b * b + c * c)
        in if n = 0 then None else Some (a / n, b / n, c / n))"

text \<open>
  Modelled from the spec: \<^verbatim>\<open>matrix2_inv\<close> (module \<^verbatim>\<open>vectors_and_matrices\<close>, not among the
  sources), the inverse of a 2x2 complex matrix, exact on complex entries; it signals
  failure (division by the zero determinant) when the matrix is singular.
\<close>

definition matrix2_inv :: "matrix2 \<Rightarrow> matrix2 option" where
  "matrix2_inv M =
     (case M of ((a, b), (c, d)) \<Rightarrow>
        let det = a * d - b * c
        in if det = 0 then None
           else Some ((d / det, - b / det), (- c / det, a / det)))"

text \<open>
  Modelled from the spec: \<^verbatim>\<open>matrix_mult\<close> (module \<^verbatim>\<open>vectors_and_matrices\<close>, not among the
  sources), the product of two 2x2 complex matrices.
\<close>

definition matrix_mult :: "matrix2 \<Rightarrow> matrix2 \<Rightarrow> matrix2" where
  "matrix_mult M N =
     (case M of ((a, b), (c, d)) \<Rightarrow> case N of ((e, f), (g, h)) \<Rightarrow>
        ((a * e + b * g, a * f + b * h), (c * e + d * g, c * f + d * h)))"

text \<open>
  Modelled from the spec: \<^verbatim>\<open>matrix_mult_vector\<close> (module \<^verbatim>\<open>vectors_and_matrices\<close>, not
  among the sources), a 2x2 complex matrix applied to a 2-vector.
\<close>

definition matrix_mult_vector :: "matrix2 \<Rightarrow> cp1 \<Rightarrow> cp1" where
  "matrix_mult_vector M v =
     (case M of ((a, b), (c, d)) \<Rightarrow> case v of (x, y) \<Rightarrow> (a * x + b * y, c * x + d * y))"

definition get_pixel_colour :: "int \<times> int \<Rightarrow> image \<Rightarrow> int \<Rightarrow> vec3 option" where
  "get_pixel_colour pt s_im x_size =
     do {
       pt \<leftarrow> clamp pt x_size;
       c \<leftarrow> pixel_access s_im pt;
       Some (vector c)
     }"

definition get_interpolated_pixel_colour :: "point2 \<Rightarrow> image \<Rightarrow> int \<Rightarrow> colour option" where
  "get_interpolated_pixel_colour pt s_im x_size =
     (let x = \<lfloor>fst pt\<rfloor>; y = \<lfloor>snd pt\<rfloor>;
          f = fst pt - of_int x; g = snd pt - of_int y
      in do {
        c00 \<leftarrow> get_pixel_colour (x, y) s_im x_size;
        c01 \<leftarrow> get_pixel_colour (x, y + 1) s_im x_size;
        c10 \<leftarrow> get_pixel_colour (x + 1, y) s_im x_size;
        c11 \<leftarrow> get_pixel_colour (x + 1, y + 1) s_im x_size;
        let out_colour =
          vector_add
            (vector_scale (1 - f) (vector_add (vector_scale (1 - g) c00) (vector_scale g c01)))
            (vector_scale f (vector_add (vector_scale (1 - g) c10) (vector_scale g c11)));
        Some (case out_colour of (r, g, b) \<Rightarrow> (py_round r, py_round g, py_round b))
      })"

subsection \<open>Matrices from geometric constraints\<close>

text \<open>
  The points \<open>p\<close>, \<open>q\<close>, \<open>r\<close> are pairs of complex numbers. The matrix with columns \<open>p\<close>
  and \<open>q\<close> is inverted twice (the first inverse is not used).
\<close>

definition inf_zero_one_to_triple :: "cp1 \<Rightarrow> cp1 \<Rightarrow> cp1 \<Rightarrow> matrix2 option" where
  "inf_zero_one_to_triple p q r =
     (case p of (p1, p2) \<Rightarrow> case q of (q1, q2) \<Rightarrow> case r of (r1, r2) \<Rightarrow>
        do {
          Minv \<leftarrow> matrix2_inv ((p1, q1), (p2, q2));
          Minv' \<leftarrow> matrix2_inv ((p1, q1), (p2, q2));
          case matrix_mult_vector Minv' (r1, r2) of (mu, lam) \<Rightarrow>
            Some ((mu * p1, lam * q1), (mu * p2, lam * q2))
        })"

definition two_triples_to_SL ::
  "cp1 \<Rightarrow> cp1 \<Rightarrow> cp1 \<Rightarrow> cp1 \<Rightarrow> cp1 \<Rightarrow> cp1 \<Rightarrow> matrix2 option" where
  "two_triples_to_SL a1 b1 c1 a2 b2 c2 =
     do {
       N2 \<leftarrow> inf_zero_one_to_triple a2 b2 c2;
       N1 \<leftarrow> inf_zero_one_to_triple a1 b1 c1;
       N1inv \<leftarrow> matrix2_inv N1;
       Some (matrix_mult N2 N1inv)
     }"

definition three_points_to_three_points_pixel_coords ::
  "point2 \<Rightarrow> point2 \<Rightarrow> point2 \<Rightarrow> point2 \<Rightarrow> point2 \<Rightarrow> point2 \<Rightarrow> int \<Rightarrow> matrix2 option" where
  "three_points_to_three_points_pixel_coords p1 q1 r1 p2 q2 r2 x_size =
     do {
       p1 \<leftarrow> sphere_from_pixel_coords p1 x_size;
       q1 \<leftarrow> sphere_from_pixel_coords q1 x_size;
       r1 \<leftarrow> sphere_from_pixel_coords r1 x_size;
       p2 \<leftarrow> sphere_from_pixel_coords p2 x_size;
       q2 \<leftarrow> sphere_from_pixel_coords q2 x_size;
       r2 \<leftarrow> sphere_from_pixel_coords r2 x_size;
       two_triples_to_SL (CP1_from_sphere p1) (CP1_from_sphere q1) (CP1_from_sphere r1)
                         (CP1_from_sphere p2) (CP1_from_sphere q2) (CP1_from_sphere r2)
     }"

definition get_vector_perp_to_p_and_q :: "vec3 \<Rightarrow> vec3 \<Rightarrow> vec3 option" where
  "get_vector_perp_to_p_and_q p q =
     (if \<bar>dot p q + 1\<bar> < 0.0001 then
        (if \<bar>dot p (1, 0, 0)\<bar> > 0.9999 then Some (0, 1, 0)
         else normalised (cross p (1, 0, 0)))
      else normalised (cross p q))"

definition rotate_sphere_points_p_to_q :: "vec3 \<Rightarrow> vec3 \<Rightarrow> matrix2 option" where
  "rotate_sphere_points_p_to_q p q =
     (let CP1p = CP1_from_sphere p; CP1q = CP1_from_sphere q
      in if \<bar>dot p q - 1\<bar> < 0.0001 then Some ((1, 0), (0, 1))
         else do {
           r \<leftarrow> get_vector_perp_to_p_and_q p q;
           let CP1r = CP1_from_sphere r;
           let CP1mr = CP1_from_sphere (vector_neg r);
           two_triples_to_SL CP1p CP1r CP1mr CP1q CP1r CP1mr
         })"

definition rotate_pixel_coords_p_to_q :: "point2 \<Rightarrow> point2 \<Rightarrow> int \<Rightarrow> matrix2 option" where
  "rotate_pixel_coords_p_to_q p q x_size =
     do {
       p \<leftarrow> sphere_from_pixel_coords p x_size;
       q \<leftarrow> sphere_from_pixel_coords q x_size;
       rotate_sphere_points_p_to_q p q
     }"

subsection \<open>Longitude shift by crop and paste\<close>

text \<open>
  The three operations of the imaging library that \<^verbatim>\<open>rotate_equirect_image\<close> uses.
  \<^verbatim>\<open>crop\<close> of a box \<open>(x0, y0, x1, y1)\<close> gives an image of size \<open>(x1 - x0, y1 - y0)\<close>, a
  negative size counting as 0, whose pixels outside the source are black; \<^verbatim>\<open>new\<close> gives a
  black image; \<^verbatim>\<open>paste\<close> overwrites the pixels under the pasted image, clipped to the
  target. The files read and written are left out: the function is modelled from the
  opened image to the image it saves.
\<close>

definition image_crop :: "image \<Rightarrow> int \<times> int \<times> int \<times> int \<Rightarrow> image" where
  "image_crop im box =
     (case box of (x0, y0, x1, y1) \<Rightarrow>
        \<lparr> im_width = max 0 (x1 - x0), im_height = max 0 (y1 - y0),
          im_pixel = (\<lambda>i j. case pixel_access im (x0 + i, y0 + j) of
                                Some c \<Rightarrow> c | None \<Rightarrow> (0, 0, 0)) \<rparr>)"

definition image_new :: "int \<times> int \<Rightarrow> image" where
  "image_new sz = \<lparr> im_width = fst sz, im_height = snd sz, im_pixel = (\<lambda>i j. (0, 0, 0)) \<rparr>"

definition image_paste :: "image \<Rightarrow> image \<Rightarrow> int \<times> int \<Rightarrow> image" where
  "image_paste dst src box =
     (case box of (ox, oy) \<Rightarrow>
        dst \<lparr> im_pixel := (\<lambda>i j. case pixel_access src (i - ox, j - oy) of
                                    Some c \<Rightarrow> c | None \<Rightarrow> im_pixel dst i j) \<rparr>)"

definition rotate_equirect_image :: "image \<Rightarrow> int \<Rightarrow> int \<Rightarrow> image" where
  "rotate_equirect_image s_img from_x to_x =
     (let dist = \<bar>from_x - to_x\<bar>;
          (l_box, r_box) =
            (if from_x < to_x
             then ((0, 0, im_width s_img - dist, im_height s_img),
                   (im_width s_img - dist, 0, im_width s_img, im_height s_img))
             else ((0, 0, dist, im_height s_img),
                   (dist, 0, im_width s_img, im_height s_img)));
          right = image_crop s_img r_box;
          left = image_crop s_img l_box;
          new_im = image_new (im_width s_img, im_height s_img);
          new_im = image_paste new_im right (0, 0);
          new_im = image_paste new_im left (im_width right, 0)
      in new_im)"

subsection \<open>Zoom levels of \<^verbatim>\<open>generate_image\<close>\<close>

text \<open>
  The body of the pixel loop of \<^verbatim>\<open>generate_image\<close> from the computation of
  \<^verbatim>\<open>recurse_value\<close> to the end of the case distinction on its floor; \<open>pt\<close> is the complex
  logarithm after the shift by the loop value. \<open>generate_image_level\<close> is
  \<^verbatim>\<open>floor(recurse_value)\<close> and \<open>generate_image_wrap\<close> the value of \<open>pt\<close> after the case
  distinction.
\<close>

definition generate_image_level :: "real \<Rightarrow> real \<Rightarrow> complex \<Rightarrow> int option" where
  "generate_image_level zoom_factor zoom_cutoff pt =
     do {
       l \<leftarrow> py_log zoom_factor;
       recurse_value \<leftarrow> py_div (Re pt + zoom_cutoff) l;
       Some \<lfloor>recurse_value\<rfloor>
     }"

definition generate_image_wrap :: "real \<Rightarrow> real \<Rightarrow> complex \<Rightarrow> complex option" where
  "generate_image_wrap zoom_factor zoom_cutoff pt =
     do {
       l \<leftarrow> py_log zoom_factor;
       recurse_value \<leftarrow> py_div (Re pt + zoom_cutoff) l;
       if \<lfloor>recurse_value\<rfloor> \<ge> 0 then Some pt
       else if \<lfloor>recurse_value\<rfloor> = - 1 then
         do { m \<leftarrow> py_fmod (Re pt + zoom_cutoff) l;
              Some (Complex (m - zoom_cutoff) (Im pt)) }
       else if \<lfloor>recurse_value\<rfloor> = - 2 then
         do { m \<leftarrow> py_fmod (Re pt + zoom_cutoff) l;
              Some (Complex (m - zoom_cutoff - l) (Im pt)) }
       else if \<lfloor>recurse_value\<rfloor> = - 3 then
         do { m \<leftarrow> py_fmod (Re pt + zoom_cutoff) l;
              Some (Complex (m - zoom_cutoff - l * 2) (Im pt)) }
       else
         do { m \<leftarrow> py_fmod (Re pt + zoom_cutoff) l;
              Some (Complex (m - zoom_cutoff - l * 3) (Im pt)) }
     }"

subsection \<open>Points of the projective line\<close>

text \<open>
  The notions the properties are stated with. A point of the projective line is a pair
  of complex numbers, not both zero; two pairs are projectively equal when one is a
  nonzero complex multiple of the other. \<open>det2 u v\<close> is the determinant of the matrix with
  columns \<open>u\<close> and \<open>v\<close>.
\<close>

definition cp1_point :: "cp1 \<Rightarrow> bool" where
  "cp1_point u \<longleftrightarrow> u \<noteq> (0, 0)"

definition cp1_scale :: "complex \<Rightarrow> cp1 \<Rightarrow> cp1" where
  "cp1_scale k u = (k * fst u, k * snd u)"

definition proj_equal :: "cp1 \<Rightarrow> cp1 \<Rightarrow> bool" where
  "proj_equal u v \<longleftrightarrow> (\<exists>k. k \<noteq> 0 \<and> u = cp1_scale k v)"

definition det2 :: "cp1 \<Rightarrow> cp1 \<Rightarrow> complex" where
  "det2 u v = fst u * snd v - fst v * snd u"

definition unit_vector :: "vec3 \<Rightarrow> bool" where
  "unit_vector p \<longleftrightarrow> dot p p = 1"

subsection \<open>Images and intervals\<close>



definition equirect_image :: "image \<Rightarrow> int \<Rightarrow> bool" where
  "equirect_image s_im x_size \<longleftrightarrow>
     im_width s_im = x_size \<and> im_height s_im = x_size div 2 \<and> 0 < im_height s_im"

definition shifted_interval :: "real \<Rightarrow> real \<Rightarrow> real \<Rightarrow> real \<Rightarrow> bool" where
  "shifted_interval c l s x \<longleftrightarrow> - c + s \<le> x \<and> x < l - c + s"

definition bilinear :: "real \<Rightarrow> real \<Rightarrow> real \<Rightarrow> real \<Rightarrow> real \<Rightarrow> real \<Rightarrow> real" where
  "bilinear f g a b c d = (1 - f) * ((1 - g) * a + g * b) + f * ((1 - g) * c + g * d)"

section \<open>Properties\<close>

subsection \<open>clamp\<close>

lemma clamp_pin:
  assumes "2 \<le> x_size"
  shows "clamp (x, y) x_size = Some (x mod x_size, max 0 (min y (x_size div 2 - 1)))
       \<and> 0 \<le> x mod x_size \<and> x mod x_size < x_size
       \<and> 0 \<le> max 0 (min y (x_size div 2 - 1))
       \<and> max 0 (min y (x_size div 2 - 1)) \<le> x_size div 2 - 1
       \<and> (0 \<le> y \<and> y \<le> x_size div 2 - 1 \<longrightarrow> max 0 (min y (x_size div 2 - 1)) = y)"
proof -
  have h: "0 \<le> x_size div 2 - 1" using assms by simp
  have w: "0 < x_size" using assms by simp
  have c: "clamp (x, y) x_size = Some (x mod x_size, max 0 (min y (x_size div 2 - 1)))"
    using h w by (simp add: clamp_def Let_def max_def min_def)
  have r: "0 \<le> x mod x_size" "x mod x_size < x_size" using w by simp_all
  have p: "0 \<le> max 0 (min y (x_size div 2 - 1))"
    "max 0 (min y (x_size div 2 - 1)) \<le> x_size div 2 - 1"
    "0 \<le> y \<and> y \<le> x_size div 2 - 1 \<longrightarrow> max 0 (min y (x_size div 2 - 1)) = y"
    using h by (simp_all add: max_def min_def)
  show ?thesis using c r p by blast
qed

text \<open>
  C6. For every width \<open>x_size\<close> (a positive number of columns) with
  \<open>y_size = x_size div 2\<close>: clamping \<open>(x_size + 5, y)\<close> gives the same point as clamping
  \<open>(5, y)\<close>, for every row \<open>y\<close>; clamping \<open>(x, -1)\<close> gives row 0; and clamping
  \<open>(x, y_size)\<close> gives row \<open>y_size - 1\<close>. The column of a clamped point is the input's
  column modulo the width and lies in \<open>[0, x_size)\<close>. When the image has a row
  (\<open>x_size \<ge> 2\<close>), every row \<open>y\<close> is pinned into \<open>[0, y_size - 1]\<close>: the clamped row is
  \<open>max 0 (min y (y_size - 1))\<close>, so a row inside the interval is kept, a row below it
  becomes 0 and a row above it becomes \<open>y_size - 1\<close>; rows are never wrapped.
\<close>

theorem clamp_wraps_x_and_pins_y:
  assumes "0 < x_size"
  shows "clamp (x_size + 5, y) x_size = clamp (5, y) x_size
       \<and> map_option snd (clamp (x, - 1) x_size) = Some 0
       \<and> map_option snd (clamp (x, x_size div 2) x_size) = Some (x_size div 2 - 1)
       \<and> map_option fst (clamp (x, y) x_size) = Some (x mod x_size)
       \<and> 0 \<le> x mod x_size \<and> x mod x_size < x_size
       \<and> (2 \<le> x_size \<longrightarrow>
            clamp (x, y) x_size = Some (x mod x_size, max 0 (min y (x_size div 2 - 1)))
          \<and> 0 \<le> max 0 (min y (x_size div 2 - 1))
          \<and> max 0 (min y (x_size div 2 - 1)) \<le> x_size div 2 - 1
          \<and> (0 \<le> y \<and> y \<le> x_size div 2 - 1 \<longrightarrow> clamp (x, y) x_size = Some (x mod x_size, y))
          \<and> (y < 0 \<longrightarrow> clamp (x, y) x_size = Some (x mod x_size, 0))
          \<and> (x_size div 2 - 1 < y \<longrightarrow>
                clamp (x, y) x_size = Some (x mod x_size, x_size div 2 - 1)))"
proof -
  have probes: "clamp (x_size + 5, y) x_size = clamp (5, y) x_size
       \<and> map_option snd (clamp (x, - 1) x_size) = Some 0
       \<and> map_option snd (clamp (x, x_size div 2) x_size) = Some (x_size div 2 - 1)
       \<and> map_option fst (clamp (x, y) x_size) = Some (x mod x_size)"
    using assms by (simp add: clamp_def Let_def)
  have col: "0 \<le> x mod x_size" "x mod x_size < x_size" using assms by simp_all
  have pin: "2 \<le> x_size \<longrightarrow>
            clamp (x, y) x_size = Some (x mod x_size, max 0 (min y (x_size div 2 - 1)))
          \<and> 0 \<le> max 0 (min y (x_size div 2 - 1))
          \<and> max 0 (min y (x_size div 2 - 1)) \<le> x_size div 2 - 1
          \<and> (0 \<le> y \<and> y \<le> x_size div 2 - 1 \<longrightarrow> clamp (x, y) x_size = Some (x mod x_size, y))
          \<and> (y < 0 \<longrightarrow> clamp (x, y) x_size = Some (x mod x_size, 0))
          \<and> (x_size div 2 - 1 < y \<longrightarrow>
                clamp (x, y) x_size = Some (x mod x_size, x_size div 2 - 1))"
  proof
    assume w: "2 \<le> x_size"
    have h: "0 \<le> x_size div 2 - 1" using w by simp
    have below: "y < 0 \<longrightarrow> max 0 (min y (x_size div 2 - 1)) = 0"
      and above: "x_size div 2 - 1 < y \<longrightarrow> max 0 (min y (x_size div 2 - 1)) = x_size div 2 - 1"
      using h by (simp_all add: max_def min_def)
    show "clamp (x, y) x_size = Some (x mod x_size, max 0 (min y (x_size div 2 - 1)))
          \<and> 0 \<le> max 0 (min y (x_size div 2 - 1))
          \<and> max 0 (min y (x_size div 2 - 1)) \<le> x_size div 2 - 1
          \<and> (0 \<le> y \<and> y \<le> x_size div 2 - 1 \<longrightarrow> clamp (x, y) x_size = Some (x mod x_size, y))
          \<and> (y < 0 \<longrightarrow> clamp (x, y) x_size = Some (x mod x_size, 0))
          \<and> (x_size div 2 - 1 < y \<longrightarrow>
                clamp (x, y) x_size = Some (x mod x_size, x_size div 2 - 1))"
      using clamp_pin [OF w, of x y] below above by simp
  qed
  show ?thesis using probes col pin by blast
qed

theorem clamp_wraps_x_and_pins_y_witness:
  "(0 :: int) < 720 \<and> (2 :: int) \<le> 720
   \<and> clamp (720 + 5, 17) 720 = clamp (5, 17) 720
   \<and> clamp (725, 17) 720 = Some (5, 17)
   \<and> map_option snd (clamp (3, - 1) 720) = Some 0
   \<and> map_option snd (clamp (3, 720 div 2) 720) = Some 359
   \<and> clamp (- 1, 1000) 720 = Some (719, 359)
   \<and> clamp (3, - 40) 720 = Some (3, 0)"
  using clamp_wraps_x_and_pins_y [of 720 17 3] clamp_wraps_x_and_pins_y [of 720 1000 "- 1"]
    clamp_wraps_x_and_pins_y [of 720 "- 40" 3]
  by (simp add: clamp_def Let_def)

subsection \<open>Sphere and projective line\<close>


lemma cmod_sq: "(cmod z)\<^sup>2 = Re z * Re z + Im z * Im z"
  unfolding cmod_power2 by (simp add: power2_eq_square)

lemma south_branch:
  assumes u: "x * x + y * y + z * z = 1" and z: "z < 0"
  shows "cmod (Complex x y) < cmod (complex_of_real (1 - z))"
proof -
  have "(cmod (Complex x y))\<^sup>2 = 1 - z * z" using u by (simp add: cmod_sq)
  moreover have "1 - z * z < (1 - z) * (1 - z)" using z by (simp add: algebra_simps) 
  ultimately have "(cmod (Complex x y))\<^sup>2 < (cmod (complex_of_real (1 - z)))\<^sup>2"
    by (simp add: cmod_sq)
  then show ?thesis by (rule power2_less_imp_less) simp
qed

lemma north_branch:
  assumes u: "x * x + y * y + z * z = 1" and z: "\<not> z < 0"
  shows "\<not> cmod (complex_of_real (1 + z)) < cmod (Complex x (- y))"
proof -
  have "(cmod (Complex x (- y)))\<^sup>2 = 1 - z * z" using u by (simp add: cmod_sq)
  moreover have "1 - z * z \<le> (1 + z) * (1 + z)" using z by (simp add: algebra_simps)
  ultimately have "(cmod (Complex x (- y)))\<^sup>2 \<le> (cmod (complex_of_real (1 + z)))\<^sup>2"
    by (simp add: cmod_sq)
  then have "cmod (Complex x (- y)) \<le> cmod (complex_of_real (1 + z))"
    by (rule power2_le_imp_le) simp
  then show ?thesis by simp
qed

lemma stereo_denom:
  fixes w :: real
  assumes w: "w \<noteq> 0" and d: "w * w + x * x + y * y = 2 * w"
  shows "1 + x / w * (x / w) + y / w * (y / w) = 2 / w"
proof -
  have "1 + x / w * (x / w) + y / w * (y / w) = (w * w + x * x + y * y) / (w * w)"
    using w by (simp add: add_divide_distrib)
  also have "\<dots> = 2 / w" using w by (simp add: d)
  finally show ?thesis .
qed

lemma stereo_back:
  fixes w :: real
  assumes w: "w \<noteq> 0"
  shows "2 * (x / w) / (2 / w) = x" and "(2 / w - 2) / (2 / w) = 1 - w"
    and "(2 - 2 / w) / (2 / w) = w - 1"
  using w by (simp_all add: field_simps)

lemma sphere_from_CP1_south:
  assumes "cmod z1 < cmod z2" and "z1 / z2 = Complex a b"
  shows "sphere_from_CP1 (z1, z2) =
         Some (2 * a / (1 + a * a + b * b), 2 * b / (1 + a * a + b * b),
               (1 + a * a + b * b - 2) / (1 + a * a + b * b))"
proof -
  have "z2 \<noteq> 0" using assms(1) by auto
  then show ?thesis using assms by (simp add: sphere_from_CP1_def py_cdiv_def Let_def)
qed

lemma sphere_from_CP1_north:
  assumes "\<not> cmod z1 < cmod z2" and "z1 \<noteq> 0" and "cnj (z2 / z1) = Complex a b"
  shows "sphere_from_CP1 (z1, z2) =
         Some (2 * a / (1 + a * a + b * b), 2 * b / (1 + a * a + b * b),
               (2 - (1 + a * a + b * b)) / (1 + a * a + b * b))"
  using assms by (simp add: sphere_from_CP1_def py_cdiv_def Let_def)

lemma sphere_CP1_roundtrip:
  assumes u: "x * x + y * y + z * z = 1"
  shows "sphere_from_CP1 (CP1_from_sphere (x, y, z)) = Some (x, y, z)"
proof (cases "z < 0")
  case True
  define w where "w = 1 - z"
  have nz: "w \<noteq> 0" using True by (simp add: w_def)
  have d: "w * w + x * x + y * y = 2 * w"
    using u by (simp add: w_def algebra_simps)
  have br: "cmod (Complex x y) < cmod (complex_of_real w)"
    unfolding w_def by (rule south_branch [OF u True])
  have q: "Complex x y / complex_of_real w = Complex (x / w) (y / w)"
    by (simp add: complex_eq_iff)
  have "sphere_from_CP1 (Complex x y, complex_of_real w) = Some (x, y, 1 - w)"
    unfolding sphere_from_CP1_south [OF br q] stereo_denom [OF nz d] stereo_back [OF nz] ..
  then show ?thesis
    using True by (simp add: CP1_from_sphere_def w_def)
next
  case False
  define w where "w = 1 + z"
  have nz: "w \<noteq> 0" using False by (simp add: w_def)
  have d: "w * w + x * x + y * y = 2 * w"
    using u by (simp add: w_def algebra_simps)
  have br: "\<not> cmod (complex_of_real w) < cmod (Complex x (- y))"
    unfolding w_def by (rule north_branch [OF u False])
  have ne: "complex_of_real w \<noteq> 0" using nz by simp
  have q: "cnj (Complex x (- y) / complex_of_real w) = Complex (x / w) (y / w)"
    by (simp add: complex_eq_iff)
  have "sphere_from_CP1 (complex_of_real w, Complex x (- y)) = Some (x, y, w - 1)"
    unfolding sphere_from_CP1_north [OF br ne q] stereo_denom [OF nz d] stereo_back [OF nz] ..
  then show ?thesis
    using False by (simp add: CP1_from_sphere_def w_def)
qed


lemma sphere_CP1_roundtrip_unit:
  assumes "unit_vector p"
  shows "sphere_from_CP1 (CP1_from_sphere p) = Some p"
proof -
  obtain x y z where p: "p = (x, y, z)" by (metis surj_pair)
  have "x * x + y * y + z * z = 1" using assms by (simp add: unit_vector_def dot_def p)
  then show ?thesis unfolding p by (rule sphere_CP1_roundtrip)
qed

text \<open>
  C4. For every point \<open>p\<close> of the unit sphere, mapping \<open>p\<close> to the projective line and
  back gives \<open>p\<close> again, in exact real arithmetic. No point has to be left out: the
  round trip is exact at the south pole and on the equator, where the branch changes,
  as well.
\<close>

theorem sphere_from_CP1_CP1_from_sphere:
  assumes "unit_vector p"
  shows "sphere_from_CP1 (CP1_from_sphere p) = Some p"
  using assms by (rule sphere_CP1_roundtrip_unit)

theorem sphere_from_CP1_CP1_from_sphere_witness:
  "unit_vector (3 / 13, 4 / 13, - (12 / 13))
   \<and> sphere_from_CP1 (CP1_from_sphere (3 / 13, 4 / 13, - (12 / 13)))
       = Some (3 / 13, 4 / 13, - (12 / 13))
   \<and> unit_vector (0, 0, - 1)
   \<and> sphere_from_CP1 (CP1_from_sphere (0, 0, - 1)) = Some (0, 0, - 1)"
  using sphere_from_CP1_CP1_from_sphere [of "(3 / 13, 4 / 13, - (12 / 13))"]
        sphere_from_CP1_CP1_from_sphere [of "(0, 0, - 1)"]
  by (simp add: unit_vector_def dot_def)

subsection \<open>Matrices from three points\<close>

lemma proj_equal_iff_det2:
  assumes "cp1_point u" and "cp1_point v"
  shows "proj_equal u v \<longleftrightarrow> det2 u v = 0"
proof
  assume "proj_equal u v"
  then obtain k where "u = cp1_scale k v" unfolding proj_equal_def by blast
  then show "det2 u v = 0" by (simp add: det2_def cp1_scale_def)
next
  assume d: "det2 u v = 0"
  obtain u1 u2 where u: "u = (u1, u2)" by (cases u)
  obtain v1 v2 where v: "v = (v1, v2)" by (cases v)
  have e: "u1 * v2 = v1 * u2" using d by (simp add: det2_def u v)
  show "proj_equal u v"
  proof (cases "v1 = 0")
    case True
    then have v2: "v2 \<noteq> 0" using assms(2) by (simp add: cp1_point_def v)
    then have u1: "u1 = 0" using e True by simp
    then have u2: "u2 \<noteq> 0" using assms(1) by (simp add: cp1_point_def u)
    have "u = cp1_scale (u2 / v2) v" using True u1 v2 by (simp add: cp1_scale_def u v)
    moreover have "u2 / v2 \<noteq> 0" using u2 v2 by simp
    ultimately show ?thesis unfolding proj_equal_def by blast
  next
    case False
    have u2: "u2 = (u1 / v1) * v2" using e False by (simp add: field_simps)
    have "u1 \<noteq> 0"
    proof
      assume "u1 = 0"
      then have "u2 = 0" using u2 by simp
      then show False using \<open>u1 = 0\<close> assms(1) by (simp add: cp1_point_def u)
    qed
    then have "u1 / v1 \<noteq> 0" using False by simp
    moreover have "u = cp1_scale (u1 / v1) v" using False u2 by (simp add: cp1_scale_def u v)
    ultimately show ?thesis unfolding proj_equal_def by blast
  qed
qed

lemma matrix2_inv_eq_None: "matrix2_inv ((a, b), (c, d)) = None \<longleftrightarrow> a * d - b * c = 0"
  by (simp add: matrix2_inv_def Let_def)

lemma inf_zero_one_to_triple_None:
  "inf_zero_one_to_triple p q r = None \<longleftrightarrow> det2 p q = 0"
  by (cases p, cases q, cases r)
     (simp add: inf_zero_one_to_triple_def matrix2_inv_def matrix_mult_vector_def det2_def Let_def
           split: prod.splits)

lemma inf_zero_one_to_triple_Some:
  assumes "det2 p q \<noteq> 0"
  shows "inf_zero_one_to_triple p q r =
         Some ((det2 r q / det2 p q * fst p, det2 p r / det2 p q * fst q),
               (det2 r q / det2 p q * snd p, det2 p r / det2 p q * snd q))"
proof -
  obtain p1 p2 where p: "p = (p1, p2)" by (cases p)
  obtain q1 q2 where q: "q = (q1, q2)" by (cases q)
  obtain r1 r2 where r: "r = (r1, r2)" by (cases r)
  define D where "D = p1 * q2 - q1 * p2"
  have d: "D \<noteq> 0" using assms by (simp add: det2_def p q D_def)
  have inv: "matrix2_inv ((p1, q1), (p2, q2)) = Some ((q2 / D, - (q1 / D)), (- (p2 / D), p1 / D))"
    using d by (simp add: matrix2_inv_def Let_def D_def)
  have mv: "matrix_mult_vector ((q2 / D, - (q1 / D)), (- (p2 / D), p1 / D)) (r1, r2)
            = ((r1 * q2 - q1 * r2) / D, (p1 * r2 - r1 * p2) / D)"
    by (simp add: matrix_mult_vector_def diff_divide_distrib)
  have "inf_zero_one_to_triple (p1, p2) (q1, q2) (r1, r2) =
        Some (((r1 * q2 - q1 * r2) / D * p1, (p1 * r2 - r1 * p2) / D * q1),
              ((r1 * q2 - q1 * r2) / D * p2, (p1 * r2 - r1 * p2) / D * q2))"
    by (simp add: inf_zero_one_to_triple_def inv mv)
  then show ?thesis
    by (simp add: p q r det2_def D_def)
qed


lemma matrix_mult_vector_mult:
  "matrix_mult_vector (matrix_mult A B) v = matrix_mult_vector A (matrix_mult_vector B v)"
  by (simp add: matrix_mult_vector_def matrix_mult_def algebra_simps split: prod.splits)

lemma matrix_mult_vector_scale:
  "matrix_mult_vector A (cp1_scale k v) = cp1_scale k (matrix_mult_vector A v)"
  by (simp add: matrix_mult_vector_def cp1_scale_def algebra_simps split: prod.splits)

lemma matrix2_inv_apply:
  assumes "matrix2_inv N = Some Ni"
  shows "matrix_mult_vector Ni (matrix_mult_vector N v) = v"
proof -
  obtain a b c d where N: "N = ((a, b), (c, d))" by (metis surj_pair)
  obtain x y where v: "v = (x, y)" by (cases v)
  define D where "D = a * d - b * c"
  have d: "D \<noteq> 0" and Ni: "Ni = ((d / D, - (b / D)), (- (c / D), a / D))"
    using assms by (auto simp add: matrix2_inv_def N Let_def D_def split: if_splits)
  have "d * (a * x + b * y) - b * (c * x + d * y) = D * x"
    and "a * (c * x + d * y) - c * (a * x + b * y) = D * y"
    by (simp_all add: D_def algebra_simps)
  then have "(d * (a * x + b * y) - b * (c * x + d * y)) / D = x"
    and "(a * (c * x + d * y) - c * (a * x + b * y)) / D = y"
    using d by simp_all
  then have "d / D * (a * x + b * y) + - (b / D) * (c * x + d * y) = x"
    and "- (c / D) * (a * x + b * y) + a / D * (c * x + d * y) = y"
    by (simp_all add: diff_divide_distrib)
  then show ?thesis by (simp add: Ni N v matrix_mult_vector_def)
qed

lemma inf_zero_one_to_triple_columns:
  assumes pq: "det2 p q \<noteq> 0" and rq: "det2 r q \<noteq> 0" and pr: "det2 p r \<noteq> 0"
  shows "\<exists>N mu lam. inf_zero_one_to_triple p q r = Some N \<and> mu \<noteq> 0 \<and> lam \<noteq> 0
           \<and> matrix_mult_vector N (1, 0) = cp1_scale mu p
           \<and> matrix_mult_vector N (0, 1) = cp1_scale lam q
           \<and> matrix_mult_vector N (1, 1) = r
           \<and> matrix2_inv N \<noteq> None"
proof -
  define mu where "mu = det2 r q / det2 p q"
  define lam where "lam = det2 p r / det2 p q"
  define N where "N = ((mu * fst p, lam * fst q), (mu * snd p, lam * snd q))"
  have N: "inf_zero_one_to_triple p q r = Some N"
    unfolding N_def mu_def lam_def by (rule inf_zero_one_to_triple_Some [OF pq])
  have mu: "mu \<noteq> 0" using pq rq by (simp add: mu_def)
  have lam: "lam \<noteq> 0" using pq pr by (simp add: lam_def)
  have c1: "matrix_mult_vector N (1, 0) = cp1_scale mu p"
    by (simp add: N_def matrix_mult_vector_def cp1_scale_def)
  have c2: "matrix_mult_vector N (0, 1) = cp1_scale lam q"
    by (simp add: N_def matrix_mult_vector_def cp1_scale_def)
  have "det2 r q * fst p + det2 p r * fst q = det2 p q * fst r"
    and "det2 r q * snd p + det2 p r * snd q = det2 p q * snd r"
    by (simp_all add: det2_def algebra_simps)
  then have "mu * fst p + lam * fst q = fst r" and "mu * snd p + lam * snd q = snd r"
    using pq by (simp_all add: mu_def lam_def field_simps)
  then have c3: "matrix_mult_vector N (1, 1) = r"
    by (simp add: N_def matrix_mult_vector_def prod_eq_iff)
  have "mu * fst p * (lam * snd q) - lam * fst q * (mu * snd p) = mu * lam * det2 p q"
    by (simp add: det2_def algebra_simps)
  then have "mu * fst p * (lam * snd q) - lam * fst q * (mu * snd p) \<noteq> 0"
    using mu lam pq by simp
  then have inv: "matrix2_inv N \<noteq> None"
    unfolding N_def matrix2_inv_eq_None .
  show ?thesis using N mu lam c1 c2 c3 inv by blast
qed

lemma inf_zero_one_to_triple_singular_iff:
  assumes pq: "det2 p q \<noteq> 0"
  shows "\<exists>N. inf_zero_one_to_triple p q r = Some N
           \<and> (matrix2_inv N = None \<longleftrightarrow> det2 p r = 0 \<or> det2 r q = 0)"
proof -
  define mu where "mu = det2 r q / det2 p q"
  define lam where "lam = det2 p r / det2 p q"
  have N: "inf_zero_one_to_triple p q r =
      Some ((mu * fst p, lam * fst q), (mu * snd p, lam * snd q))"
    unfolding mu_def lam_def by (rule inf_zero_one_to_triple_Some [OF pq])
  have d: "mu * fst p * (lam * snd q) - lam * fst q * (mu * snd p) = mu * lam * det2 p q"
    by (simp add: det2_def algebra_simps)
  have i: "matrix2_inv ((mu * fst p, lam * fst q), (mu * snd p, lam * snd q)) = None
        \<longleftrightarrow> mu * lam * det2 p q = 0"
    by (simp only: matrix2_inv_eq_None d)
  have m: "mu = 0 \<longleftrightarrow> det2 r q = 0" using pq by (simp add: mu_def)
  have l: "lam = 0 \<longleftrightarrow> det2 p r = 0" using pq by (simp add: lam_def)
  have z: "mu * lam * det2 p q = 0 \<longleftrightarrow> mu = 0 \<or> lam = 0" using pq by simp
  have "matrix2_inv ((mu * fst p, lam * fst q), (mu * snd p, lam * snd q)) = None
        \<longleftrightarrow> det2 p r = 0 \<or> det2 r q = 0"
    unfolding i z m l by (rule disj_commute)
  then show ?thesis using N by (intro exI conjI) 
qed

lemma two_triples_to_SL_maps:
  assumes d1: "det2 a1 b1 \<noteq> 0" "det2 c1 b1 \<noteq> 0" "det2 a1 c1 \<noteq> 0"
      and d2: "det2 a2 b2 \<noteq> 0" "det2 c2 b2 \<noteq> 0" "det2 a2 c2 \<noteq> 0"
  shows "\<exists>M ka kb. two_triples_to_SL a1 b1 c1 a2 b2 c2 = Some M \<and> ka \<noteq> 0 \<and> kb \<noteq> 0
           \<and> matrix_mult_vector M a1 = cp1_scale ka a2
           \<and> matrix_mult_vector M b1 = cp1_scale kb b2
           \<and> matrix_mult_vector M c1 = c2"
proof -
  obtain N1 mu1 lam1 where N1: "inf_zero_one_to_triple a1 b1 c1 = Some N1"
    and mu1: "mu1 \<noteq> 0" and lam1: "lam1 \<noteq> 0"
    and N1a: "matrix_mult_vector N1 (1, 0) = cp1_scale mu1 a1"
    and N1b: "matrix_mult_vector N1 (0, 1) = cp1_scale lam1 b1"
    and N1c: "matrix_mult_vector N1 (1, 1) = c1"
    and N1i: "matrix2_inv N1 \<noteq> None"
    using inf_zero_one_to_triple_columns [OF d1] by blast
  obtain N2 mu2 lam2 where N2: "inf_zero_one_to_triple a2 b2 c2 = Some N2"
    and mu2: "mu2 \<noteq> 0" and lam2: "lam2 \<noteq> 0"
    and N2a: "matrix_mult_vector N2 (1, 0) = cp1_scale mu2 a2"
    and N2b: "matrix_mult_vector N2 (0, 1) = cp1_scale lam2 b2"
    and N2c: "matrix_mult_vector N2 (1, 1) = c2"
    using inf_zero_one_to_triple_columns [OF d2] by blast
  obtain N1inv where inv: "matrix2_inv N1 = Some N1inv" using N1i by blast
  define M where "M = matrix_mult N2 N1inv"
  have M: "two_triples_to_SL a1 b1 c1 a2 b2 c2 = Some M"
    by (simp add: two_triples_to_SL_def N1 N2 inv M_def)
  have pull: "\<And>v. matrix_mult_vector M (matrix_mult_vector N1 v) = matrix_mult_vector N2 v"
    by (simp add: M_def matrix_mult_vector_mult matrix2_inv_apply [OF inv])
  have sc: "\<And>k l v. k \<noteq> 0 \<Longrightarrow> cp1_scale (1 / k) (cp1_scale k v) = v"
    by (simp add: cp1_scale_def)
  have sc2: "\<And>k l v. cp1_scale k (cp1_scale l v) = cp1_scale (k * l) v"
    by (simp add: cp1_scale_def algebra_simps)
  have "a1 = cp1_scale (1 / mu1) (matrix_mult_vector N1 (1, 0))"
    using mu1 by (simp add: N1a sc)
  then have "matrix_mult_vector M a1 = cp1_scale (1 / mu1) (matrix_mult_vector M (matrix_mult_vector N1 (1, 0)))"
    by (simp only: matrix_mult_vector_scale)
  then have a: "matrix_mult_vector M a1 = cp1_scale (1 / mu1 * mu2) a2"
    by (simp only: pull N2a sc2)
  have "b1 = cp1_scale (1 / lam1) (matrix_mult_vector N1 (0, 1))"
    using lam1 by (simp add: N1b sc)
  then have "matrix_mult_vector M b1 = cp1_scale (1 / lam1) (matrix_mult_vector M (matrix_mult_vector N1 (0, 1)))"
    by (simp only: matrix_mult_vector_scale)
  then have b: "matrix_mult_vector M b1 = cp1_scale (1 / lam1 * lam2) b2"
    by (simp only: pull N2b sc2)
  have c: "matrix_mult_vector M c1 = c2"
    using pull [of "(1, 1)"] by (simp only: N1c N2c)
  have "1 / mu1 * mu2 \<noteq> 0" and "1 / lam1 * lam2 \<noteq> 0"
    using mu1 mu2 lam1 lam2 by simp_all
  then show ?thesis using M a b c by blast
qed


lemma det2_swap: "det2 v u = - det2 u v"
  by (simp add: det2_def)

text \<open>
  C1. For points \<open>a1, b1, c1\<close> and \<open>a2, b2, c2\<close> of the projective line, each triple
  pairwise projectively distinct, \<open>two_triples_to_SL\<close> returns a matrix \<open>M\<close>, and \<open>M\<close>
  sends \<open>a1\<close> to \<open>a2\<close>, \<open>b1\<close> to \<open>b2\<close> and \<open>c1\<close> to \<open>c2\<close>, each up to a nonzero complex
  factor.
\<close>

theorem two_triples_to_SL_sends_triple_to_triple:
  assumes "cp1_point a1" and "cp1_point b1" and "cp1_point c1"
      and "cp1_point a2" and "cp1_point b2" and "cp1_point c2"
      and "\<not> proj_equal a1 b1" and "\<not> proj_equal a1 c1" and "\<not> proj_equal b1 c1"
      and "\<not> proj_equal a2 b2" and "\<not> proj_equal a2 c2" and "\<not> proj_equal b2 c2"
  shows "\<exists>M. two_triples_to_SL a1 b1 c1 a2 b2 c2 = Some M
           \<and> proj_equal (matrix_mult_vector M a1) a2
           \<and> proj_equal (matrix_mult_vector M b1) b2
           \<and> proj_equal (matrix_mult_vector M c1) c2"
proof -
  have d1: "det2 a1 b1 \<noteq> 0" "det2 c1 b1 \<noteq> 0" "det2 a1 c1 \<noteq> 0"
    using assms proj_equal_iff_det2 [of a1 b1] proj_equal_iff_det2 [of b1 c1]
      proj_equal_iff_det2 [of a1 c1] det2_swap [of c1 b1]
    by simp_all
  have d2: "det2 a2 b2 \<noteq> 0" "det2 c2 b2 \<noteq> 0" "det2 a2 c2 \<noteq> 0"
    using assms proj_equal_iff_det2 [of a2 b2] proj_equal_iff_det2 [of b2 c2]
      proj_equal_iff_det2 [of a2 c2] det2_swap [of c2 b2]
    by simp_all
  obtain M ka kb where M: "two_triples_to_SL a1 b1 c1 a2 b2 c2 = Some M"
    and k: "ka \<noteq> 0" "kb \<noteq> 0"
    and a: "matrix_mult_vector M a1 = cp1_scale ka a2"
    and b: "matrix_mult_vector M b1 = cp1_scale kb b2"
    and c: "matrix_mult_vector M c1 = c2"
    using two_triples_to_SL_maps [OF d1 d2] by blast
  have "c2 = cp1_scale 1 c2" by (simp add: cp1_scale_def)
  then have "proj_equal (matrix_mult_vector M c1) c2"
    unfolding proj_equal_def c by (metis one_neq_zero)
  moreover have "proj_equal (matrix_mult_vector M a1) a2"
    unfolding proj_equal_def a using k by blast
  moreover have "proj_equal (matrix_mult_vector M b1) b2"
    unfolding proj_equal_def b using k by blast
  ultimately show ?thesis using M by blast
qed

theorem two_triples_to_SL_sends_triple_to_triple_witness:
  "cp1_point (1, 0) \<and> cp1_point (0, 1) \<and> cp1_point (1, 1) \<and> cp1_point (\<i>, 1)
   \<and> cp1_point (1, 2) \<and> cp1_point (3, 1)
   \<and> \<not> proj_equal (1, 0) (0, 1) \<and> \<not> proj_equal (1, 0) (1, 1) \<and> \<not> proj_equal (0, 1) (1, 1)
   \<and> \<not> proj_equal (\<i>, 1) (1, 2) \<and> \<not> proj_equal (\<i>, 1) (3, 1) \<and> \<not> proj_equal (1, 2) (3, 1)
   \<and> (\<exists>M. two_triples_to_SL (1, 0) (0, 1) (1, 1) (\<i>, 1) (1, 2) (3, 1) = Some M
         \<and> proj_equal (matrix_mult_vector M (1, 0)) (\<i>, 1)
         \<and> proj_equal (matrix_mult_vector M (0, 1)) (1, 2)
         \<and> proj_equal (matrix_mult_vector M (1, 1)) (3, 1))"
proof -
  have p: "cp1_point (1, 0)" "cp1_point (0, 1)" "cp1_point (1, 1)" "cp1_point (\<i>, 1)"
    "cp1_point (1, 2)" "cp1_point (3, 1)"
    by (simp_all add: cp1_point_def)
  have d: "\<not> proj_equal (1, 0) (0, 1)" "\<not> proj_equal (1, 0) (1, 1)"
    "\<not> proj_equal (0, 1) (1, 1)" "\<not> proj_equal (\<i>, 1) (1, 2)"
    "\<not> proj_equal (\<i>, 1) (3, 1)" "\<not> proj_equal (1, 2) (3, 1)"
    by (simp_all add: proj_equal_iff_det2 p det2_def complex_eq_iff)
  show ?thesis
    using two_triples_to_SL_sends_triple_to_triple
      [OF p(1) p(2) p(3) p(4) p(5) p(6) d(1) d(2) d(3) d(4) d(5) d(6)] p d
    by simp
qed

text \<open>
  C5. As stated the claim fails: with \<open>r\<close> projectively equal to \<open>p\<close> (and \<open>p\<close>, \<open>q\<close>
  distinct) \<open>inf_zero_one_to_triple\<close> returns a matrix, a singular one.
\<close>

theorem inf_zero_one_to_triple_equal_points_no_failure:
  "proj_equal (1, 0) (1, 0)
   \<and> inf_zero_one_to_triple (1, 0) (0, 1) (1, 0) = Some ((1, 0), (0, 0))
   \<and> matrix2_inv ((1, 0), (0, 0)) = None"
proof -
  have "((1, 0) :: cp1) = cp1_scale 1 (1, 0)" by (simp add: cp1_scale_def)
  then have "proj_equal (1, 0) (1, 0)" unfolding proj_equal_def by (metis one_neq_zero)
  moreover have "inf_zero_one_to_triple (1, 0) (0, 1) (1, 0) = Some ((1, 0), (0, 0))"
    by (simp add: inf_zero_one_to_triple_def matrix2_inv_def matrix_mult_vector_def)
  moreover have "matrix2_inv ((1, 0), (0, 0)) = None"
    by (simp add: matrix2_inv_def)
  ultimately show ?thesis by blast
qed

text \<open>
  C5, amended. For points \<open>p\<close>, \<open>q\<close>, \<open>r\<close> of the projective line,
  \<open>inf_zero_one_to_triple p q r\<close> fails if and only if \<open>p\<close> and \<open>q\<close> are projectively equal
  (the matrix with columns \<open>p\<close> and \<open>q\<close>, which it inverts, is then singular). When \<open>p\<close>
  and \<open>q\<close> are distinct it returns a matrix without error, and that matrix is singular
  exactly when \<open>r\<close> is projectively equal to \<open>p\<close> or to \<open>q\<close>; so for pairwise projectively
  distinct points the matrix returned is invertible.
\<close>

theorem inf_zero_one_to_triple_fails_iff:
  assumes "cp1_point p" and "cp1_point q" and "cp1_point r"
  shows "(inf_zero_one_to_triple p q r = None \<longleftrightarrow> proj_equal p q)
       \<and> (\<not> proj_equal p q \<longrightarrow>
            (\<exists>N. inf_zero_one_to_triple p q r = Some N
               \<and> (matrix2_inv N = None \<longleftrightarrow> proj_equal p r \<or> proj_equal q r)))
       \<and> (\<not> proj_equal p q \<and> \<not> proj_equal p r \<and> \<not> proj_equal q r \<longrightarrow>
            (\<exists>N. inf_zero_one_to_triple p q r = Some N \<and> matrix2_inv N \<noteq> None))"
proof -
  have pq: "proj_equal p q \<longleftrightarrow> det2 p q = 0"
    and pr: "proj_equal p r \<longleftrightarrow> det2 p r = 0"
    and qr: "proj_equal q r \<longleftrightarrow> det2 r q = 0"
    using assms proj_equal_iff_det2 [of p q] proj_equal_iff_det2 [of p r]
      proj_equal_iff_det2 [of q r] det2_swap [of r q]
    by simp_all
  show ?thesis
    unfolding pq pr qr inf_zero_one_to_triple_None
    using inf_zero_one_to_triple_columns [of p q r] inf_zero_one_to_triple_singular_iff [of p q r]
    by blast
qed

theorem inf_zero_one_to_triple_fails_iff_witness:
  "cp1_point (\<i>, 1) \<and> cp1_point (1, 2) \<and> cp1_point (3, 1)
   \<and> \<not> proj_equal (\<i>, 1) (1, 2) \<and> \<not> proj_equal (\<i>, 1) (3, 1) \<and> \<not> proj_equal (1, 2) (3, 1)
   \<and> (\<exists>N. inf_zero_one_to_triple (\<i>, 1) (1, 2) (3, 1) = Some N \<and> matrix2_inv N \<noteq> None)
   \<and> cp1_point (2, 4) \<and> proj_equal (1, 2) (2, 4)
   \<and> inf_zero_one_to_triple (1, 2) (2, 4) (3, 1) = None
   \<and> cp1_point (2 * \<i>, 2) \<and> proj_equal (\<i>, 1) (2 * \<i>, 2)
   \<and> (\<exists>N. inf_zero_one_to_triple (\<i>, 1) (1, 2) (2 * \<i>, 2) = Some N \<and> matrix2_inv N = None)"
proof -
  have p: "cp1_point (\<i>, 1)" "cp1_point (1, 2)" "cp1_point (3, 1)" "cp1_point (2, 4)"
    "cp1_point (2 * \<i>, 2)"
    by (simp_all add: cp1_point_def)
  have d: "\<not> proj_equal (\<i>, 1) (1, 2)" "\<not> proj_equal (\<i>, 1) (3, 1)"
    "\<not> proj_equal (1, 2) (3, 1)" "proj_equal (1, 2) (2, 4)" "proj_equal (\<i>, 1) (2 * \<i>, 2)"
    by (simp_all add: proj_equal_iff_det2 p det2_def complex_eq_iff)
  show ?thesis
    using inf_zero_one_to_triple_fails_iff [OF p(1) p(2) p(3)]
      inf_zero_one_to_triple_fails_iff [OF p(2) p(4) p(3)]
      inf_zero_one_to_triple_fails_iff [OF p(1) p(2) p(5)] p d
    by simp
qed

subsection \<open>Rotations taking one point of the sphere to another\<close>

lemma CP1_from_sphere_point:
  assumes "unit_vector u"
  shows "cp1_point (CP1_from_sphere u)"
proof -
  obtain x y z where u: "u = (x, y, z)" by (metis surj_pair)
  show ?thesis
  proof (cases "z < 0")
    case True
    then have "1 - z \<noteq> 0" by simp
    then have "complex_of_real (1 - z) \<noteq> 0" by (simp only: of_real_eq_0_iff) simp
    then show ?thesis using True by (simp add: cp1_point_def CP1_from_sphere_def u del: of_real_diff)
  next
    case False
    then have "1 + z \<noteq> 0" by simp
    then have "complex_of_real (1 + z) \<noteq> 0" by (simp only: of_real_eq_0_iff) simp
    then show ?thesis using False by (simp add: cp1_point_def CP1_from_sphere_def u del: of_real_add)
  qed
qed

lemma sphere_from_CP1_scale:
  assumes "k \<noteq> 0"
  shows "sphere_from_CP1 (cp1_scale k w) = sphere_from_CP1 w"
proof -
  obtain z1 z2 where w: "w = (z1, z2)" by (cases w)
  have c: "cmod (k * z1) < cmod (k * z2) \<longleftrightarrow> cmod z1 < cmod z2"
    using assms by (simp add: norm_mult)
  have d: "py_cdiv (k * z1) (k * z2) = py_cdiv z1 z2" "py_cdiv (k * z2) (k * z1) = py_cdiv z2 z1"
    using assms by (simp_all add: py_cdiv_def)
  show ?thesis
    unfolding w cp1_scale_def sphere_from_CP1_def by (simp only: fst_conv snd_conv prod.case c d)
qed

lemma CP1_from_sphere_distinct:
  assumes u: "unit_vector u" and v: "unit_vector v" and ne: "u \<noteq> v"
  shows "det2 (CP1_from_sphere u) (CP1_from_sphere v) \<noteq> 0"
proof
  assume "det2 (CP1_from_sphere u) (CP1_from_sphere v) = 0"
  then have "proj_equal (CP1_from_sphere u) (CP1_from_sphere v)"
    using proj_equal_iff_det2 [OF CP1_from_sphere_point [OF u] CP1_from_sphere_point [OF v]]
    by simp
  then obtain k where k: "k \<noteq> 0" and e: "CP1_from_sphere u = cp1_scale k (CP1_from_sphere v)"
    unfolding proj_equal_def by blast
  have "sphere_from_CP1 (CP1_from_sphere u) = sphere_from_CP1 (CP1_from_sphere v)"
    unfolding e by (rule sphere_from_CP1_scale [OF k])
  then have "Some u = Some v"
    using sphere_CP1_roundtrip_unit [OF u] sphere_CP1_roundtrip_unit [OF v] by simp
  then show False using ne by simp
qed

lemma dot_commute: "dot u v = dot v u"
  by (simp add: dot_def split: prod.splits)

lemma dot_vector_neg: "dot (vector_neg u) v = - dot u v" "dot u (vector_neg v) = - dot u v"
  by (simp_all add: dot_def vector_neg_def split: prod.splits)

lemma unit_vector_neg: "unit_vector (vector_neg u) = unit_vector u"
  by (simp add: unit_vector_def dot_vector_neg)

lemma vector_neg_neq:
  assumes "unit_vector r"
  shows "vector_neg r \<noteq> r"
proof
  assume "vector_neg r = r"
  then have "dot (vector_neg r) r = dot r r" by simp
  then show False using assms by (simp add: dot_vector_neg unit_vector_def)
qed

lemma perp_distinct:
  assumes "unit_vector p" and "dot r p = 0"
  shows "p \<noteq> r \<and> p \<noteq> vector_neg r"
proof -
  have "p = r \<Longrightarrow> False" using assms by (auto simp add: unit_vector_def)
  moreover have "p = vector_neg r \<Longrightarrow> False"
  proof -
    assume e: "p = vector_neg r"
    have "dot (vector_neg r) p = 0" using assms(2) by (simp add: dot_vector_neg)
    then show False using assms(1) by (simp add: unit_vector_def e)
  qed
  ultimately show ?thesis by blast
qed

lemma dot_cross: "dot (cross u v) u = 0" "dot (cross u v) v = 0"
proof -
  obtain a b c where u: "u = (a, b, c)" by (metis surj_pair)
  obtain d e f where v: "v = (d, e, f)" by (metis surj_pair)
  show "dot (cross u v) u = 0" "dot (cross u v) v = 0"
    by (simp_all add: u v dot_def cross_def algebra_simps)
qed

lemma lagrange: "dot (cross u v) (cross u v) = dot u u * dot v v - dot u v * dot u v"
proof -
  obtain a b c where u: "u = (a, b, c)" by (metis surj_pair)
  obtain d e f where v: "v = (d, e, f)" by (metis surj_pair)
  show ?thesis
    by (simp add: u v dot_def cross_def algebra_simps)
qed

lemma normalised_Some:
  assumes "dot c c \<noteq> 0"
  shows "\<exists>r. normalised c = Some r \<and> unit_vector r \<and> (\<forall>v. dot c v = 0 \<longrightarrow> dot r v = 0)"
proof -
  obtain a b d where c: "c = (a, b, d)" by (metis surj_pair)
  define n where "n = sqrt (a * a + b * b + d * d)"
  have nn: "n * n = a * a + b * b + d * d" 
    unfolding n_def by (simp add: add_nonneg_nonneg)
  have n0: "n \<noteq> 0" using assms nn by (auto simp add: dot_def c)
  have r: "normalised c = Some (a / n, b / n, d / n)"
    using n0 by (simp add: normalised_def c n_def Let_def)
  have "a / n * (a / n) + b / n * (b / n) + d / n * (d / n) = (a * a + b * b + d * d) / (n * n)"
    by (simp add: add_divide_distrib)
  moreover have "(a * a + b * b + d * d) / (n * n) = 1"
    using n0 by (simp add: nn [symmetric])
  ultimately have u: "unit_vector (a / n, b / n, d / n)"
    by (simp only: unit_vector_def dot_def prod.case)
  have "\<And>v. dot c v = 0 \<Longrightarrow> dot (a / n, b / n, d / n) v = 0"
  proof -
    fix v assume z: "dot c v = 0"
    obtain e f g where v: "v = (e, f, g)" by (metis surj_pair)
    have "a / n * e + b / n * f + d / n * g = (a * e + b * f + d * g) / n"
      by (simp add: add_divide_distrib)
    then show "dot (a / n, b / n, d / n) v = 0" using z by (simp add: dot_def c v)
  qed
  then show ?thesis using r u by blast
qed


lemma decimals: "(0.9999::real) = 9999 / 10000" "(0.0001::real) = 1 / 10000"
  by simp_all

lemma square_gt:
  fixes a :: real
  assumes "9999 / 10000 < \<bar>a\<bar>"
  shows "9998 / 10000 < a * a"
proof -
  have "9999 / 10000 * (9999 / 10000) < \<bar>a\<bar> * \<bar>a\<bar>"
    using assms by (intro mult_strict_mono) simp_all
  then show ?thesis by simp
qed

lemma square_lt:
  fixes a :: real
  assumes "\<bar>a\<bar> \<le> 9999 / 10000"
  shows "a * a < 1"
proof -
  have "\<bar>a\<bar> * \<bar>a\<bar> \<le> 9999 / 10000 * (9999 / 10000)"
    using assms by (intro mult_mono) simp_all
  then show ?thesis by simp
qed

lemma perp_reference_axis:
  assumes p: "unit_vector p" and q: "unit_vector q"
    and anti: "\<bar>dot p q + 1\<bar> < 0.0001" and par: "\<bar>dot p (1, 0, 0)\<bar> > 0.9999"
  shows "p \<noteq> (0, 1, 0) \<and> p \<noteq> vector_neg (0, 1, 0) \<and> q \<noteq> (0, 1, 0) \<and> q \<noteq> vector_neg (0, 1, 0)"
proof -
  obtain a b c where pe: "p = (a, b, c)" by (metis surj_pair)
  have a: "9999 / 10000 < \<bar>a\<bar>" using par unfolding decimals by (simp add: pe dot_def)
  have aa: "9998 / 10000 < a * a" by (rule square_gt [OF a])
  have u: "a * a + b * b + c * c = 1" using p by (simp add: unit_vector_def dot_def pe)
  have cc: "0 \<le> c * c" by simp
  have bb: "b * b < 2 / 10000" using aa u cc by linarith
  have b: "\<bar>b\<bar> \<le> 9999 / 10000"
  proof (rule ccontr)
    assume "\<not> \<bar>b\<bar> \<le> 9999 / 10000"
    then have "9998 / 10000 < b * b" using square_gt [of b] by simp
    then show False using bb by linarith
  qed
  have "a \<noteq> 0" using a by auto
  then have p1: "p \<noteq> (0, 1, 0)" and p2: "p \<noteq> vector_neg (0, 1, 0)"
    by (simp_all add: pe vector_neg_def)
  have q1: "q \<noteq> (0, 1, 0)"
  proof
    assume "q = (0, 1, 0)"
    then have "dot p q = b" by (simp add: pe dot_def)
    then have "\<bar>b + 1\<bar> < 1 / 10000" using anti unfolding decimals by simp
    then show False using b by linarith
  qed
  have q2: "q \<noteq> vector_neg (0, 1, 0)"
  proof
    assume "q = vector_neg (0, 1, 0)"
    then have "dot p q = - b" by (simp add: pe dot_def vector_neg_def)
    then have "\<bar>- b + 1\<bar> < 1 / 10000" using anti unfolding decimals by simp
    then show False using b by linarith
  qed
  show ?thesis using p1 p2 q1 q2 by blast
qed

lemma get_vector_perp_to_p_and_q_distinct:
  assumes p: "unit_vector p" and q: "unit_vector q" and ne: "\<not> \<bar>dot p q - 1\<bar> < 0.0001"
  shows "\<exists>r. get_vector_perp_to_p_and_q p q = Some r \<and> unit_vector r
             \<and> p \<noteq> r \<and> p \<noteq> vector_neg r \<and> q \<noteq> r \<and> q \<noteq> vector_neg r"
proof (cases "\<bar>dot p q + 1\<bar> < 0.0001")
  case anti: True
  show ?thesis
  proof (cases "\<bar>dot p (1, 0, 0)\<bar> > 0.9999")
    case True
    have "get_vector_perp_to_p_and_q p q = Some (0, 1, 0)"
      using anti True by (simp add: get_vector_perp_to_p_and_q_def)
    moreover have "unit_vector (0, 1, 0)" by (simp add: unit_vector_def dot_def)
    ultimately show ?thesis using perp_reference_axis [OF p q anti True] by blast
  next
    case False
    obtain a b c where pe: "p = (a, b, c)" by (metis surj_pair)
    have a: "\<bar>a\<bar> \<le> 9999 / 10000" using False unfolding decimals by (simp add: pe dot_def)
    have aa: "a * a < 1" by (rule square_lt [OF a])
    have "dot (cross p (1, 0, 0)) (cross p (1, 0, 0)) = 1 - a * a"
      unfolding lagrange using p by (simp add: unit_vector_def) (simp add: pe dot_def)
    then have "dot (cross p (1, 0, 0)) (cross p (1, 0, 0)) \<noteq> 0" using aa by simp
    then obtain r where r: "normalised (cross p (1, 0, 0)) = Some r" and ur: "unit_vector r"
      and perp: "\<forall>v. dot (cross p (1, 0, 0)) v = 0 \<longrightarrow> dot r v = 0"
      using normalised_Some by blast
    have rp: "dot r p = 0" using perp dot_cross(1) by blast
    have g: "get_vector_perp_to_p_and_q p q = Some r"
      using anti False r by (simp add: get_vector_perp_to_p_and_q_def)
    have q1: "q \<noteq> r"
    proof
      assume "q = r"
      then have "dot p q = 0" using rp by (simp add: dot_commute)
      then show False using anti by simp
    qed
    have q2: "q \<noteq> vector_neg r"
    proof
      assume "q = vector_neg r"
      then have "dot p q = 0" using rp by (simp add: dot_commute dot_vector_neg)
      then show False using anti by simp
    qed
    show ?thesis using g ur perp_distinct [OF p rp] q1 q2 by blast
  qed
next
  case False
  define t where "t = dot p q"
  have "t \<noteq> 1" "t \<noteq> - 1" using ne False by (auto simp add: t_def)
  then have "t * t \<noteq> 1" by (simp add: square_eq_1_iff)
  moreover have "dot (cross p q) (cross p q) = 1 - t * t"
    unfolding lagrange using p q by (simp add: unit_vector_def t_def)
  ultimately have "dot (cross p q) (cross p q) \<noteq> 0" by simp
  then obtain r where r: "normalised (cross p q) = Some r" and ur: "unit_vector r"
    and perp: "\<forall>v. dot (cross p q) v = 0 \<longrightarrow> dot r v = 0"
    using normalised_Some by blast
  have rp: "dot r p = 0" and rq: "dot r q = 0" using perp dot_cross by blast+
  have g: "get_vector_perp_to_p_and_q p q = Some r"
    using False r by (simp add: get_vector_perp_to_p_and_q_def)
  show ?thesis using g ur perp_distinct [OF p rp] perp_distinct [OF q rq] by blast
qed

lemma rotate_sphere_points_maps:
  assumes p: "unit_vector p" and q: "unit_vector q" and ne: "\<not> \<bar>dot p q - 1\<bar> < 0.0001"
  shows "\<exists>M. rotate_sphere_points_p_to_q p q = Some M
           \<and> sphere_from_CP1 (matrix_mult_vector M (CP1_from_sphere p)) = Some q"
proof -
  obtain r where g: "get_vector_perp_to_p_and_q p q = Some r" and ur: "unit_vector r"
    and pr: "p \<noteq> r" and pmr: "p \<noteq> vector_neg r" and qr: "q \<noteq> r" and qmr: "q \<noteq> vector_neg r"
    using get_vector_perp_to_p_and_q_distinct [OF p q ne] by blast
  have umr: "unit_vector (vector_neg r)" using ur by (simp add: unit_vector_neg)
  have d1: "det2 (CP1_from_sphere p) (CP1_from_sphere r) \<noteq> 0"
    "det2 (CP1_from_sphere (vector_neg r)) (CP1_from_sphere r) \<noteq> 0"
    "det2 (CP1_from_sphere p) (CP1_from_sphere (vector_neg r)) \<noteq> 0"
    using CP1_from_sphere_distinct [OF p ur pr] CP1_from_sphere_distinct [OF p umr pmr]
      CP1_from_sphere_distinct [OF umr ur vector_neg_neq [OF ur]] by blast+
  have d2: "det2 (CP1_from_sphere q) (CP1_from_sphere r) \<noteq> 0"
    "det2 (CP1_from_sphere (vector_neg r)) (CP1_from_sphere r) \<noteq> 0"
    "det2 (CP1_from_sphere q) (CP1_from_sphere (vector_neg r)) \<noteq> 0"
    using CP1_from_sphere_distinct [OF q ur qr] CP1_from_sphere_distinct [OF q umr qmr]
      CP1_from_sphere_distinct [OF umr ur vector_neg_neq [OF ur]] by blast+
  obtain M ka where M: "two_triples_to_SL (CP1_from_sphere p) (CP1_from_sphere r)
        (CP1_from_sphere (vector_neg r)) (CP1_from_sphere q) (CP1_from_sphere r)
        (CP1_from_sphere (vector_neg r)) = Some M"
    and ka: "ka \<noteq> 0"
    and a: "matrix_mult_vector M (CP1_from_sphere p) = cp1_scale ka (CP1_from_sphere q)"
    using two_triples_to_SL_maps [OF d1 d2] by blast
  have "rotate_sphere_points_p_to_q p q = Some M"
    using ne g M by (simp add: rotate_sphere_points_p_to_q_def Let_def)
  moreover have "sphere_from_CP1 (matrix_mult_vector M (CP1_from_sphere p)) = Some q"
    unfolding a sphere_from_CP1_scale [OF ka] by (rule sphere_CP1_roundtrip_unit [OF q])
  ultimately show ?thesis by blast
qed


lemma normalised_perp:
  assumes "normalised c = Some r" and "dot c v = 0"
  shows "dot r v = 0"
proof -
  obtain a b d where c: "c = (a, b, d)" by (metis surj_pair)
  obtain e f g where v: "v = (e, f, g)" by (metis surj_pair)
  define n where "n = sqrt (a * a + b * b + d * d)"
  have r: "r = (a / n, b / n, d / n)"
    using assms(1) by (simp add: normalised_def c n_def Let_def split: if_splits)
  have "a / n * e + b / n * f + d / n * g = (a * e + b * f + d * g) / n"
    by (simp add: add_divide_distrib)
  then show ?thesis using assms(2) by (simp add: dot_def c v r)
qed

lemma get_vector_perp_to_p_and_q_perp:
  assumes g: "get_vector_perp_to_p_and_q p q = Some r"
  shows "(\<not> \<bar>dot p q + 1\<bar> < 0.0001 \<longrightarrow> dot r p = 0 \<and> dot r q = 0)
       \<and> (\<bar>dot p q + 1\<bar> < 0.0001 \<and> \<not> \<bar>dot p (1, 0, 0)\<bar> > 0.9999 \<longrightarrow> dot r p = 0)
       \<and> (\<bar>dot p q + 1\<bar> < 0.0001 \<and> \<bar>dot p (1, 0, 0)\<bar> > 0.9999 \<longrightarrow> r = (0, 1, 0))"
proof -
  have "\<not> \<bar>dot p q + 1\<bar> < 0.0001 \<longrightarrow> dot r p = 0 \<and> dot r q = 0"
  proof
    assume a: "\<not> \<bar>dot p q + 1\<bar> < 0.0001"
    then have n: "normalised (cross p q) = Some r"
      using g by (simp add: get_vector_perp_to_p_and_q_def)
    show "dot r p = 0 \<and> dot r q = 0"
      using normalised_perp [OF n dot_cross(1)] normalised_perp [OF n dot_cross(2)] by simp
  qed
  moreover have "\<bar>dot p q + 1\<bar> < 0.0001 \<and> \<not> \<bar>dot p (1, 0, 0)\<bar> > 0.9999 \<longrightarrow> dot r p = 0"
  proof
    assume a: "\<bar>dot p q + 1\<bar> < 0.0001 \<and> \<not> \<bar>dot p (1, 0, 0)\<bar> > 0.9999"
    then have n: "normalised (cross p (1, 0, 0)) = Some r"
      using g by (simp add: get_vector_perp_to_p_and_q_def)
    show "dot r p = 0" by (rule normalised_perp [OF n dot_cross(1)])
  qed
  moreover have "\<bar>dot p q + 1\<bar> < 0.0001 \<and> \<bar>dot p (1, 0, 0)\<bar> > 0.9999 \<longrightarrow> r = (0, 1, 0)"
  proof
    assume a: "\<bar>dot p q + 1\<bar> < 0.0001 \<and> \<bar>dot p (1, 0, 0)\<bar> > 0.9999"
    then have "get_vector_perp_to_p_and_q p q = Some (0, 1, 0)"
      by (simp add: get_vector_perp_to_p_and_q_def)
    then show "r = (0, 1, 0)" using g by simp
  qed
  ultimately show ?thesis by blast
qed

lemma get_vector_perp_to_p_and_q_antipodal:
  assumes p: "unit_vector p" and q: "q = vector_neg p"
    and ax: "\<not> \<bar>dot p (1, 0, 0)\<bar> > 0.9999 \<or> p = (1, 0, 0) \<or> p = (- 1, 0, 0)"
    and g: "get_vector_perp_to_p_and_q p q = Some r"
  shows "dot r p = 0 \<and> dot r q = 0"
proof -
  have "dot p q = - 1" using p by (simp add: q dot_vector_neg unit_vector_def)
  then have anti: "\<bar>dot p q + 1\<bar> < 0.0001" by simp
  have "dot r p = 0"
  proof (cases "\<bar>dot p (1, 0, 0)\<bar> > 0.9999")
    case True
    then have r: "r = (0, 1, 0)" using get_vector_perp_to_p_and_q_perp [OF g] anti by blast
    have "p = (1, 0, 0) \<or> p = (- 1, 0, 0)" using ax True by blast
    then show ?thesis unfolding r by (auto simp add: dot_def)
  next
    case False
    then show ?thesis using get_vector_perp_to_p_and_q_perp [OF g] anti by blast
  qed
  then show ?thesis by (simp add: q dot_vector_neg)
qed

text \<open>
  C3. As stated the claim fails in two places. For two distinct unit vectors whose dot
  product is within 0.0001 of 1 the identity matrix is returned, and the round trip
  gives \<open>p\<close>, not \<open>q\<close>; the two vectors below are about 0.014 apart. And for antipodal
  \<open>p\<close> and \<open>q\<close> with \<open>p\<close> within the threshold 0.9999 of the reference axis but not on it,
  the auxiliary vector is the second axis \<open>(0, 1, 0)\<close>, which is not perpendicular to
  \<open>p\<close>.
\<close>

theorem rotate_sphere_points_p_to_q_guard_and_fallback:
  "unit_vector (1, 0, 0) \<and> unit_vector (10224 / 10225, 143 / 10225, 0)
   \<and> rotate_sphere_points_p_to_q (1, 0, 0) (10224 / 10225, 143 / 10225, 0)
       = Some ((1, 0), (0, 1))
   \<and> sphere_from_CP1 (matrix_mult_vector ((1, 0), (0, 1)) (CP1_from_sphere (1, 0, 0)))
       = Some (1, 0, 0)
   \<and> ((1, 0, 0) :: vec3) \<noteq> (10224 / 10225, 143 / 10225, 0)
   \<and> dot (10224 / 10225, 143 / 10225, 0) (vector_neg (10224 / 10225, 143 / 10225, 0)) = - 1
   \<and> get_vector_perp_to_p_and_q (10224 / 10225, 143 / 10225, 0)
        (vector_neg (10224 / 10225, 143 / 10225, 0)) = Some (0, 1, 0)
   \<and> dot (0, 1, 0) (10224 / 10225, 143 / 10225, 0) = 143 / 10225"
proof -
  have u: "unit_vector (1, 0, 0)" by (simp add: unit_vector_def dot_def)
  have "matrix_mult_vector ((1, 0), (0, 1)) (CP1_from_sphere (1, 0, 0)) = CP1_from_sphere (1, 0, 0)"
    by (simp add: matrix_mult_vector_def split: prod.splits)
  then have "sphere_from_CP1 (matrix_mult_vector ((1, 0), (0, 1)) (CP1_from_sphere (1, 0, 0)))
       = Some (1, 0, 0)"
    using sphere_CP1_roundtrip_unit [OF u] by simp
  moreover have "unit_vector (10224 / 10225, 143 / 10225, 0)"
    by (simp add: unit_vector_def dot_def)
  moreover have "rotate_sphere_points_p_to_q (1, 0, 0) (10224 / 10225, 143 / 10225, 0)
       = Some ((1, 0), (0, 1))"
    by (simp add: rotate_sphere_points_p_to_q_def dot_def)
  moreover have
    "dot (10224 / 10225, 143 / 10225, 0) (vector_neg (10224 / 10225, 143 / 10225, 0)) = - 1"
    by (simp add: dot_def vector_neg_def)
  moreover have "get_vector_perp_to_p_and_q (10224 / 10225, 143 / 10225, 0)
        (vector_neg (10224 / 10225, 143 / 10225, 0)) = Some (0, 1, 0)"
    by (simp add: get_vector_perp_to_p_and_q_def dot_def vector_neg_def)
  moreover have "dot (0, 1, 0) (10224 / 10225, 143 / 10225, 0) = 143 / 10225"
    by (simp add: dot_def)
  ultimately show ?thesis using u by simp
qed

text \<open>
  C3, amended. For all unit vectors \<open>p\<close> and \<open>q\<close> whose dot product is not within 0.0001
  of 1, \<open>rotate_sphere_points_p_to_q p q\<close> returns a matrix that, applied to
  \<open>CP1_from_sphere p\<close> and mapped back through \<open>sphere_from_CP1\<close>, gives \<open>q\<close>, including
  when \<open>p\<close> and \<open>q\<close> are antipodal. The auxiliary vector is always a valid nonzero unit
  vector (and different from \<open>p\<close>, \<open>-p\<close>, \<open>q\<close> and \<open>-q\<close>); it is perpendicular to both \<open>p\<close>
  and \<open>q\<close> when they are not within 0.0001 of antipodal, and, for antipodal \<open>p\<close> and
  \<open>q\<close>, when \<open>p\<close> is on the reference axis \<open>(1, 0, 0)\<close> or not within the threshold 0.9999
  of it. When the dot product of \<open>p\<close> and \<open>q\<close> is within 0.0001 of 1, in particular when
  \<open>p = q\<close>, the identity matrix is returned.
\<close>

theorem rotate_sphere_points_p_to_q_sends_p_to_q:
  assumes "unit_vector p" and "unit_vector q"
  shows "rotate_sphere_points_p_to_q p p = Some ((1, 0), (0, 1))
       \<and> (\<bar>dot p q - 1\<bar> < 0.0001 \<longrightarrow> rotate_sphere_points_p_to_q p q = Some ((1, 0), (0, 1)))
       \<and> (\<not> \<bar>dot p q - 1\<bar> < 0.0001 \<longrightarrow>
            (\<exists>M. rotate_sphere_points_p_to_q p q = Some M
               \<and> sphere_from_CP1 (matrix_mult_vector M (CP1_from_sphere p)) = Some q)
          \<and> (\<exists>r. get_vector_perp_to_p_and_q p q = Some r \<and> unit_vector r
               \<and> p \<noteq> r \<and> p \<noteq> vector_neg r \<and> q \<noteq> r \<and> q \<noteq> vector_neg r
               \<and> (\<not> \<bar>dot p q + 1\<bar> < 0.0001 \<longrightarrow> dot r p = 0 \<and> dot r q = 0)
               \<and> (q = vector_neg p
                    \<and> (\<not> \<bar>dot p (1, 0, 0)\<bar> > 0.9999 \<or> p = (1, 0, 0) \<or> p = (- 1, 0, 0))
                  \<longrightarrow> dot r p = 0 \<and> dot r q = 0)))"
proof -
  have same: "rotate_sphere_points_p_to_q p p = Some ((1, 0), (0, 1))"
    using assms(1) by (simp add: rotate_sphere_points_p_to_q_def unit_vector_def)
  have near: "\<bar>dot p q - 1\<bar> < 0.0001 \<longrightarrow>
      rotate_sphere_points_p_to_q p q = Some ((1, 0), (0, 1))"
    by (simp add: rotate_sphere_points_p_to_q_def)
  have far: "\<not> \<bar>dot p q - 1\<bar> < 0.0001 \<longrightarrow>
            (\<exists>M. rotate_sphere_points_p_to_q p q = Some M
               \<and> sphere_from_CP1 (matrix_mult_vector M (CP1_from_sphere p)) = Some q)
          \<and> (\<exists>r. get_vector_perp_to_p_and_q p q = Some r \<and> unit_vector r
               \<and> p \<noteq> r \<and> p \<noteq> vector_neg r \<and> q \<noteq> r \<and> q \<noteq> vector_neg r
               \<and> (\<not> \<bar>dot p q + 1\<bar> < 0.0001 \<longrightarrow> dot r p = 0 \<and> dot r q = 0)
               \<and> (q = vector_neg p
                    \<and> (\<not> \<bar>dot p (1, 0, 0)\<bar> > 0.9999 \<or> p = (1, 0, 0) \<or> p = (- 1, 0, 0))
                  \<longrightarrow> dot r p = 0 \<and> dot r q = 0))"
  proof
    assume ne: "\<not> \<bar>dot p q - 1\<bar> < 0.0001"
    obtain r where g: "get_vector_perp_to_p_and_q p q = Some r" and ur: "unit_vector r"
      and di: "p \<noteq> r" "p \<noteq> vector_neg r" "q \<noteq> r" "q \<noteq> vector_neg r"
      using get_vector_perp_to_p_and_q_distinct [OF assms ne] by blast
    have generic: "\<not> \<bar>dot p q + 1\<bar> < 0.0001 \<longrightarrow> dot r p = 0 \<and> dot r q = 0"
      using get_vector_perp_to_p_and_q_perp [OF g] by blast
    have anti: "q = vector_neg p
                    \<and> (\<not> \<bar>dot p (1, 0, 0)\<bar> > 0.9999 \<or> p = (1, 0, 0) \<or> p = (- 1, 0, 0))
                  \<longrightarrow> dot r p = 0 \<and> dot r q = 0"
      using get_vector_perp_to_p_and_q_antipodal [OF assms(1) _ _ g] by blast
    show "(\<exists>M. rotate_sphere_points_p_to_q p q = Some M
               \<and> sphere_from_CP1 (matrix_mult_vector M (CP1_from_sphere p)) = Some q)
          \<and> (\<exists>r. get_vector_perp_to_p_and_q p q = Some r \<and> unit_vector r
               \<and> p \<noteq> r \<and> p \<noteq> vector_neg r \<and> q \<noteq> r \<and> q \<noteq> vector_neg r
               \<and> (\<not> \<bar>dot p q + 1\<bar> < 0.0001 \<longrightarrow> dot r p = 0 \<and> dot r q = 0)
               \<and> (q = vector_neg p
                    \<and> (\<not> \<bar>dot p (1, 0, 0)\<bar> > 0.9999 \<or> p = (1, 0, 0) \<or> p = (- 1, 0, 0))
                  \<longrightarrow> dot r p = 0 \<and> dot r q = 0))"
      using rotate_sphere_points_maps [OF assms ne] g ur di generic anti by blast
  qed
  show ?thesis using same near far by blast
qed

theorem rotate_sphere_points_p_to_q_sends_p_to_q_witness:
  "unit_vector (1, 0, 0) \<and> unit_vector (- 1, 0, 0)
   \<and> \<not> \<bar>dot (1, 0, 0) (- 1, 0, 0) - 1\<bar> < 0.0001
   \<and> (- 1, 0, 0) = vector_neg (1, 0, 0)
   \<and> (\<exists>M. rotate_sphere_points_p_to_q (1, 0, 0) (- 1, 0, 0) = Some M
         \<and> sphere_from_CP1 (matrix_mult_vector M (CP1_from_sphere (1, 0, 0))) = Some (- 1, 0, 0))
   \<and> (\<exists>r. get_vector_perp_to_p_and_q (1, 0, 0) (- 1, 0, 0) = Some r \<and> unit_vector r
         \<and> dot r (1, 0, 0) = 0 \<and> dot r (- 1, 0, 0) = 0)
   \<and> unit_vector (0, 1, 0) \<and> \<not> \<bar>dot (1, 0, 0) (0, 1, 0) - 1\<bar> < 0.0001
   \<and> \<not> \<bar>dot (1, 0, 0) (0, 1, 0) + 1\<bar> < 0.0001
   \<and> (\<exists>r. get_vector_perp_to_p_and_q (1, 0, 0) (0, 1, 0) = Some r \<and> unit_vector r
         \<and> dot r (1, 0, 0) = 0 \<and> dot r (0, 1, 0) = 0)
   \<and> rotate_sphere_points_p_to_q (1, 0, 0) (1, 0, 0) = Some ((1, 0), (0, 1))"
proof -
  have u: "unit_vector (1, 0, 0)" "unit_vector (- 1, 0, 0)" "unit_vector (0, 1, 0)"
    by (simp_all add: unit_vector_def dot_def)
  have d: "\<not> \<bar>dot (1, 0, 0) (- 1, 0, 0) - 1\<bar> < 0.0001"
    "\<not> \<bar>dot (1, 0, 0) (0, 1, 0) - 1\<bar> < 0.0001" "\<not> \<bar>dot (1, 0, 0) (0, 1, 0) + 1\<bar> < 0.0001"
    by (simp_all add: dot_def)
  have n: "(- 1, 0, 0) = vector_neg (1, 0, 0)" by (simp add: vector_neg_def)
  show ?thesis
    using rotate_sphere_points_p_to_q_sends_p_to_q [OF u(1) u(2)]
      rotate_sphere_points_p_to_q_sends_p_to_q [OF u(1) u(3)] u d n
    by blast
qed

subsection \<open>Pixels, angles and the sphere\<close>

lemma sqrt_one_plus_ratio:
  fixes x y :: real
  assumes "x \<noteq> 0"
  shows "sqrt (1 + (y / x)\<^sup>2) = sqrt (x * x + y * y) / \<bar>x\<bar>"
proof -
  have "1 + (y / x)\<^sup>2 = (x * x + y * y) / x\<^sup>2"
    using assms by (simp add: power2_eq_square add_divide_distrib)
  then show ?thesis by (simp add: real_sqrt_divide)
qed

lemma cos_atan2:
  assumes "x \<noteq> 0 \<or> y \<noteq> 0"
  shows "cos (atan2 y x) = x / sqrt (x * x + y * y)"
proof -
  consider "0 < x" | "x < 0" | "x = 0" "y \<noteq> 0" using assms by linarith
  then show ?thesis
  proof cases
    case 1
    then show ?thesis by (simp add: atan2_def cos_arctan sqrt_one_plus_ratio)
  next
    case 2
    then show ?thesis by (simp add: atan2_def cos_arctan sqrt_one_plus_ratio)
  next
    case 3
    then show ?thesis by (simp add: atan2_def)
  qed
qed

lemma sin_atan2:
  assumes "x \<noteq> 0 \<or> y \<noteq> 0"
  shows "sin (atan2 y x) = y / sqrt (x * x + y * y)"
proof -
  consider "0 < x" | "x < 0" | "x = 0" "0 < y" | "x = 0" "y < 0" using assms by linarith
  then show ?thesis
  proof cases
    case 1
    then show ?thesis by (simp add: atan2_def sin_arctan sqrt_one_plus_ratio)
  next
    case 2
    then show ?thesis by (simp add: atan2_def sin_arctan sqrt_one_plus_ratio)
  next
    case 3
    then show ?thesis by (simp add: atan2_def)
  next
    case 4
    then show ?thesis by (simp add: atan2_def)
  qed
qed

lemma sphere_angles_roundtrip:
  assumes u: "x * x + y * y + z * z = 1"
  shows "sphere_from_angles (angles_from_sphere (x, y, z)) = (x, y, z)"
proof -
  define r where "r = sqrt (x * x + y * y)"
  define lon where "lon = atan2 y x"
  have r0: "0 \<le> r" by (simp add: r_def)
  have rr: "r * r = x * x + y * y" by (simp add: r_def)
  then have one: "r * r + z * z = 1" using u by simp
  then have nz: "r \<noteq> 0 \<or> z \<noteq> 0" by auto
  have cl: "cos (atan2 z r) = r" using cos_atan2 [OF nz] by (simp add: one)
  have sl: "sin (atan2 z r) = z" using sin_atan2 [OF nz] by (simp add: one)
  have xy: "r * cos lon = x \<and> r * sin lon = y"
  proof (cases "r = 0")
    case True
    then have "x * x + y * y = 0" using rr by simp
    then have "x = 0 \<and> y = 0" by (simp add: sum_squares_eq_zero_iff)
    then show ?thesis using True by simp
  next
    case False
    then have "x \<noteq> 0 \<or> y \<noteq> 0" using rr by auto
    then show ?thesis using False cos_atan2 [of x y] sin_atan2 [of x y]
      by (simp add: lon_def r_def)
  qed
  have shift: "cos (lon + 2 * pi) = cos lon" "sin (lon + 2 * pi) = sin lon" by simp_all
  show ?thesis
    unfolding angles_from_sphere_def sphere_from_angles_def
    using cl sl xy shift by (simp add: Let_def r_def lon_def)
qed

lemma pixel_angles_roundtrip:
  assumes "x_size \<noteq> 0" and "x_size div 2 \<noteq> 1"
  shows "map_option (\<lambda>a. pixel_coords_from_angles a x_size) (angles_from_pixel_coords pt x_size) = Some pt"
    and "angles_from_pixel_coords (pixel_coords_from_angles a x_size) x_size = Some a"
  using assms
  by (simp_all add: angles_from_pixel_coords_def pixel_coords_from_angles_def py_div_def Let_def prod_eq_iff add_divide_distrib)


text \<open>
  C7. As stated the claim fails: for the widths 2 and 3 (and 0) \<open>angles_from_pixel_coords\<close>
  divides by \<open>y_size - 1 = 0\<close> and raises, so there is no round trip.
\<close>

theorem angles_from_pixel_coords_width_2:
  "angles_from_pixel_coords (0, 0) 2 = None
   \<and> map_option (\<lambda>a. pixel_coords_from_angles a 2) (angles_from_pixel_coords (0, 0) 2)
       \<noteq> Some (0, 0)"
  by (simp add: angles_from_pixel_coords_def py_div_def)

text \<open>
  C7, amended. In exact real arithmetic, for every 2D point \<open>pt\<close> and every width
  \<open>x_size\<close> with \<open>x_size \<noteq> 0\<close> and \<open>x_size div 2 \<noteq> 1\<close> (every positive width other than 2
  and 3), \<open>angles_from_pixel_coords\<close> returns and \<open>pixel_coords_from_angles\<close> takes its
  result back to \<open>pt\<close>, and the other way round; and for every unit vector \<open>p\<close>,
  \<open>sphere_from_angles (angles_from_sphere p) = p\<close>.
\<close>

theorem pixel_angles_and_sphere_angles_roundtrip:
  assumes "x_size \<noteq> 0" and "x_size div 2 \<noteq> 1" and "unit_vector p"
  shows "map_option (\<lambda>a. pixel_coords_from_angles a x_size) (angles_from_pixel_coords pt x_size)
           = Some pt
       \<and> angles_from_pixel_coords (pixel_coords_from_angles a x_size) x_size = Some a
       \<and> sphere_from_angles (angles_from_sphere p) = p"
proof -
  obtain x y z where p: "p = (x, y, z)" by (metis surj_pair)
  have "x * x + y * y + z * z = 1" using assms(3) by (simp add: unit_vector_def dot_def p)
  then have "sphere_from_angles (angles_from_sphere p) = p"
    unfolding p by (rule sphere_angles_roundtrip)
  then show ?thesis using pixel_angles_roundtrip [OF assms(1) assms(2)] by simp
qed

theorem pixel_angles_and_sphere_angles_roundtrip_witness:
  "(720 :: int) \<noteq> 0 \<and> (720 :: int) div 2 \<noteq> 1 \<and> unit_vector (- (3 / 5), 0, 4 / 5)
   \<and> map_option (\<lambda>a. pixel_coords_from_angles a 720) (angles_from_pixel_coords (100, 7.5) 720)
       = Some (100, 7.5)
   \<and> angles_from_pixel_coords (pixel_coords_from_angles (1, - 1) 720) 720 = Some (1, - 1)
   \<and> sphere_from_angles (angles_from_sphere (- (3 / 5), 0, 4 / 5)) = (- (3 / 5), 0, 4 / 5)"
proof -
  have u: "unit_vector (- (3 / 5), 0, 4 / 5)" by (simp add: unit_vector_def dot_def)
  have w: "(720 :: int) \<noteq> 0" "(720 :: int) div 2 \<noteq> 1" by simp_all
  show ?thesis
    using pixel_angles_and_sphere_angles_roundtrip [OF w u, of "(100, 7.5)" "(1, - 1)"] u
    by simp
qed


subsection \<open>Zoom levels\<close>

lemma py_fmod_range:
  assumes "0 < l"
  shows "\<exists>m. py_fmod x l = Some m \<and> 0 \<le> m \<and> m < l \<and> m = x - l * of_int \<lfloor>x / l\<rfloor>"
proof -
  have "of_int \<lfloor>x / l\<rfloor> * l \<le> x" and "x < (of_int \<lfloor>x / l\<rfloor> + 1) * l"
    using floor_divide_lower [OF assms, of x] floor_divide_upper [OF assms, of x] by simp_all
  then have "0 \<le> x - l * of_int \<lfloor>x / l\<rfloor>" and "x - l * of_int \<lfloor>x / l\<rfloor> < l"
    by (simp_all add: algebra_simps)
  then show ?thesis using assms by (simp add: py_fmod_def)
qed

lemma generate_image_wrap_unfold:
  assumes "py_log zoom_factor = Some l" and "py_div (Re pt + zoom_cutoff) l = Some r"
    and "py_fmod (Re pt + zoom_cutoff) l = Some m" and "\<lfloor>r\<rfloor> = n"
  shows "generate_image_wrap zoom_factor zoom_cutoff pt =
         (if 0 \<le> n then Some pt
          else if n = - 1 then Some (Complex (m - zoom_cutoff) (Im pt))
          else if n = - 2 then Some (Complex (m - zoom_cutoff - l) (Im pt))
          else if n = - 3 then Some (Complex (m - zoom_cutoff - l * 2) (Im pt))
          else Some (Complex (m - zoom_cutoff - l * 3) (Im pt)))"
  unfolding generate_image_wrap_def
  by (simp only: assms Option.bind.bind_lunit)

lemma generate_image_wrap_cases:
  assumes k: "1 < zoom_factor"
  shows "\<exists>level w. generate_image_level zoom_factor zoom_cutoff pt = Some level
           \<and> generate_image_wrap zoom_factor zoom_cutoff pt = Some w
           \<and> Im w = Im pt
           \<and> (0 \<le> level \<longrightarrow> w = pt)
           \<and> (level = - 1 \<or> level = - 2 \<or> level = - 3 \<longrightarrow>
                shifted_interval zoom_cutoff (ln zoom_factor)
                  (of_int (level + 1) * ln zoom_factor) (Re w)
                \<and> Re w = Re pt + ln zoom_factor)
           \<and> (level < - 3 \<longrightarrow>
                shifted_interval zoom_cutoff (ln zoom_factor) (- 3 * ln zoom_factor) (Re w)
                \<and> Re w = Re pt - of_int (level + 3) * ln zoom_factor)"
proof -
  define l where "l = ln zoom_factor"
  define x where "x = Re pt + zoom_cutoff"
  define n where "n = \<lfloor>x / l\<rfloor>"
  have l: "0 < l" using k by (simp add: l_def)
  have lg: "py_log zoom_factor = Some l" using k by (simp add: py_log_def l_def)
  have dv: "py_div x l = Some (x / l)" using l by (simp add: py_div_def)
  obtain m where fm: "py_fmod x l = Some m" and m0: "0 \<le> m" and ml: "m < l"
    and m: "m = x - l * of_int n"
    using py_fmod_range [OF l, of x] unfolding n_def by blast
  have lev: "generate_image_level zoom_factor zoom_cutoff pt = Some n"
    by (simp add: generate_image_level_def lg dv n_def flip: x_def)
  note un = generate_image_wrap_unfold [OF lg dv [unfolded x_def] fm [unfolded x_def] n_def [unfolded x_def, symmetric]]
  consider "0 \<le> n" | "n = - 1" | "n = - 2" | "n = - 3" | "n < - 3" by linarith
  then show ?thesis
  proof cases
    case 1
    then have "generate_image_wrap zoom_factor zoom_cutoff pt = Some pt"
      unfolding un by simp
    then show ?thesis using lev 1 by simp
  next
    case 2
    then have w: "generate_image_wrap zoom_factor zoom_cutoff pt = Some (Complex (m - zoom_cutoff) (Im pt))"
      unfolding un by simp
    have "m - zoom_cutoff = Re pt + l" using m 2 by (simp add: x_def)
    then show ?thesis using lev w 2 m0 ml by (simp add: shifted_interval_def flip: l_def)
  next
    case 3
    then have w: "generate_image_wrap zoom_factor zoom_cutoff pt = Some (Complex (m - zoom_cutoff - l) (Im pt))"
      unfolding un by simp
    have "m - zoom_cutoff - l = Re pt + l" using m 3 by (simp add: x_def)
    then show ?thesis using lev w 3 m0 ml by (simp add: shifted_interval_def flip: l_def)
  next
    case 4
    then have w: "generate_image_wrap zoom_factor zoom_cutoff pt = Some (Complex (m - zoom_cutoff - l * 2) (Im pt))"
      unfolding un by simp
    have "m - zoom_cutoff - l * 2 = Re pt + l" using m 4 by (simp add: x_def)
    then show ?thesis using lev w 4 m0 ml by (simp add: shifted_interval_def flip: l_def)
  next
    case 5
    then have w: "generate_image_wrap zoom_factor zoom_cutoff pt = Some (Complex (m - zoom_cutoff - l * 3) (Im pt))"
      unfolding un by simp
    have "m - zoom_cutoff - l * 3 = Re pt - of_int (n + 3) * l" using m by (simp add: x_def algebra_simps)
    then show ?thesis using lev w 5 m0 ml by (simp add: shifted_interval_def flip: l_def)
  qed
qed


text \<open>
  C2. As stated the claim fails: at level \<open>-1\<close> the real part is wrapped into the
  fundamental interval itself, not into the interval shifted by \<open>level * log k\<close>. With
  \<open>k = e\<close>, \<open>c = 0\<close> and \<open>Re w = -1/2\<close> the level is \<open>-1\<close> and the new real part is \<open>1/2\<close>,
  outside \<open>[-1, 0)\<close>.
\<close>

theorem generate_image_wrap_level_minus_one:
  "generate_image_level (exp 1) 0 (Complex (- (1 / 2)) 0) = Some (- 1)
   \<and> generate_image_wrap (exp 1) 0 (Complex (- (1 / 2)) 0) = Some (Complex (1 / 2) 0)
   \<and> \<not> shifted_interval 0 (ln (exp 1)) (- 1 * ln (exp 1)) (Re (Complex (1 / 2) 0))"
  by (simp add: generate_image_level_def generate_image_wrap_def py_log_def py_div_def
       py_fmod_def shifted_interval_def)

text \<open>
  C2, amended. For a zoom factor \<open>k > 1\<close>, with \<open>level = floor ((Re w + c) / log k)\<close>: the
  level and the new point are computed without error and the imaginary part is kept;
  if \<open>level \<ge> 0\<close> the point is unchanged; if \<open>level\<close> is \<open>-1\<close>, \<open>-2\<close> or \<open>-3\<close> the real part is
  wrapped into the fundamental interval \<open>[-c, log k - c)\<close> shifted by
  \<open>(level + 1) * log k\<close>, which makes it \<open>Re w + log k\<close>; for every \<open>level < -3\<close> it is
  wrapped into the fundamental interval shifted by \<open>-3 * log k\<close>, whatever the level.
\<close>

theorem generate_image_wrap_levels:
  assumes "1 < zoom_factor"
  shows "\<exists>level w. generate_image_level zoom_factor zoom_cutoff pt = Some level
           \<and> generate_image_wrap zoom_factor zoom_cutoff pt = Some w
           \<and> Im w = Im pt
           \<and> (0 \<le> level \<longrightarrow> w = pt)
           \<and> (level = - 1 \<or> level = - 2 \<or> level = - 3 \<longrightarrow>
                shifted_interval zoom_cutoff (ln zoom_factor)
                  (of_int (level + 1) * ln zoom_factor) (Re w)
                \<and> Re w = Re pt + ln zoom_factor)
           \<and> (level < - 3 \<longrightarrow>
                shifted_interval zoom_cutoff (ln zoom_factor) (- 3 * ln zoom_factor) (Re w)
                \<and> Re w = Re pt - of_int (level + 3) * ln zoom_factor)"
  using assms by (rule generate_image_wrap_cases)

theorem generate_image_wrap_levels_witness:
  "1 < exp (1 :: real)
   \<and> (\<exists>level w. generate_image_level (exp 1) 0 (Complex (- (5 / 2)) 0) = Some level
           \<and> generate_image_wrap (exp 1) 0 (Complex (- (5 / 2)) 0) = Some w
           \<and> Im w = Im (Complex (- (5 / 2)) 0)
           \<and> (0 \<le> level \<longrightarrow> w = Complex (- (5 / 2)) 0)
           \<and> (level = - 1 \<or> level = - 2 \<or> level = - 3 \<longrightarrow>
                shifted_interval 0 (ln (exp 1)) (of_int (level + 1) * ln (exp 1)) (Re w)
                \<and> Re w = Re (Complex (- (5 / 2)) 0) + ln (exp 1))
           \<and> (level < - 3 \<longrightarrow>
                shifted_interval 0 (ln (exp 1)) (- 3 * ln (exp 1)) (Re w)
                \<and> Re w = Re (Complex (- (5 / 2)) 0) - of_int (level + 3) * ln (exp 1)))"
proof -
  have h: "1 < exp (1 :: real)" by simp
  show ?thesis
    using h generate_image_wrap_levels [OF h, of 0 "Complex (- (5 / 2)) 0"] by blast
qed

subsection \<open>Sampling inside the image\<close>

lemma clamp_in_range:
  assumes "equirect_image s_im x_size"
  shows "\<exists>cx cy. clamp pt x_size = Some (cx, cy)
           \<and> 0 \<le> cx \<and> cx < x_size \<and> 0 \<le> cy \<and> cy \<le> x_size div 2 - 1"
proof -
  have h: "0 < x_size div 2" using assms by (simp add: equirect_image_def)
  then have w: "0 < x_size" by (simp add: pos_imp_zdiv_pos_iff)
  show ?thesis using h w by (simp add: clamp_def Let_def)
qed

lemma get_pixel_colour_in_range:
  assumes "equirect_image s_im x_size"
  shows "\<exists>cx cy. clamp pt x_size = Some (cx, cy)
           \<and> 0 \<le> cx \<and> cx < x_size \<and> 0 \<le> cy \<and> cy \<le> x_size div 2 - 1
           \<and> pixel_access s_im (cx, cy) = Some (im_pixel s_im cx cy)
           \<and> get_pixel_colour pt s_im x_size = Some (vector (im_pixel s_im cx cy))"
proof -
  obtain cx cy where c: "clamp pt x_size = Some (cx, cy)"
    and r: "0 \<le> cx" "cx < x_size" "0 \<le> cy" "cy \<le> x_size div 2 - 1"
    using clamp_in_range [OF assms] by blast
  have a: "pixel_access s_im (cx, cy) = Some (im_pixel s_im cx cy)"
    using r assms by (simp add: pixel_access_def equirect_image_def)
  have "get_pixel_colour pt s_im x_size = Some (vector (im_pixel s_im cx cy))"
    by (simp add: get_pixel_colour_def c a)
  then show ?thesis using c r a by blast
qed

lemma get_interpolated_pixel_colour_unfold:
  assumes "get_pixel_colour (\<lfloor>fst pt\<rfloor>, \<lfloor>snd pt\<rfloor>) s_im x_size = Some (r00, g00, b00)"
    and "get_pixel_colour (\<lfloor>fst pt\<rfloor>, \<lfloor>snd pt\<rfloor> + 1) s_im x_size = Some (r01, g01, b01)"
    and "get_pixel_colour (\<lfloor>fst pt\<rfloor> + 1, \<lfloor>snd pt\<rfloor>) s_im x_size = Some (r10, g10, b10)"
    and "get_pixel_colour (\<lfloor>fst pt\<rfloor> + 1, \<lfloor>snd pt\<rfloor> + 1) s_im x_size = Some (r11, g11, b11)"
  shows "get_interpolated_pixel_colour pt s_im x_size =
         Some (py_round (bilinear (fst pt - of_int \<lfloor>fst pt\<rfloor>) (snd pt - of_int \<lfloor>snd pt\<rfloor>) r00 r01 r10 r11),
               py_round (bilinear (fst pt - of_int \<lfloor>fst pt\<rfloor>) (snd pt - of_int \<lfloor>snd pt\<rfloor>) g00 g01 g10 g11),
               py_round (bilinear (fst pt - of_int \<lfloor>fst pt\<rfloor>) (snd pt - of_int \<lfloor>snd pt\<rfloor>) b00 b01 b10 b11))"
  unfolding get_interpolated_pixel_colour_def Let_def
  by (simp only: assms Option.bind.bind_lunit vector_add_def vector_scale_def bilinear_def prod.case)









text \<open>
  C8. For every equirectangular source image of width \<open>x_size\<close> (with \<open>x_size div 2\<close> rows,
  at least one) and every point, however far outside the image: \<open>get_pixel_colour\<close>
  clamps its integer point to a column in \<open>[0, x_size)\<close> and a row in
  \<open>[0, x_size div 2 - 1]\<close>, reads the image there, and the read succeeds; and
  \<open>get_interpolated_pixel_colour\<close>, whose four reads all go through \<open>get_pixel_colour\<close>,
  returns a colour for every real point.
\<close>

theorem sampling_stays_inside_image:
  assumes "equirect_image s_im x_size"
  shows "(\<exists>cx cy. clamp ipt x_size = Some (cx, cy)
            \<and> 0 \<le> cx \<and> cx < x_size \<and> 0 \<le> cy \<and> cy \<le> x_size div 2 - 1
            \<and> pixel_access s_im (cx, cy) = Some (im_pixel s_im cx cy)
            \<and> get_pixel_colour ipt s_im x_size = Some (vector (im_pixel s_im cx cy)))
       \<and> (\<exists>c. get_interpolated_pixel_colour pt s_im x_size = Some c)"
proof -
  obtain a b c where "get_pixel_colour (\<lfloor>fst pt\<rfloor>, \<lfloor>snd pt\<rfloor>) s_im x_size = Some (a, b, c)"
    using get_pixel_colour_in_range [OF assms] by (metis surj_pair)
  moreover obtain d e f where
    "get_pixel_colour (\<lfloor>fst pt\<rfloor>, \<lfloor>snd pt\<rfloor> + 1) s_im x_size = Some (d, e, f)"
    using get_pixel_colour_in_range [OF assms] by (metis surj_pair)
  moreover obtain g h i where
    "get_pixel_colour (\<lfloor>fst pt\<rfloor> + 1, \<lfloor>snd pt\<rfloor>) s_im x_size = Some (g, h, i)"
    using get_pixel_colour_in_range [OF assms] by (metis surj_pair)
  moreover obtain j k l where
    "get_pixel_colour (\<lfloor>fst pt\<rfloor> + 1, \<lfloor>snd pt\<rfloor> + 1) s_im x_size = Some (j, k, l)"
    using get_pixel_colour_in_range [OF assms] by (metis surj_pair)
  ultimately have "\<exists>c. get_interpolated_pixel_colour pt s_im x_size = Some c"
    using get_interpolated_pixel_colour_unfold by blast
  then show ?thesis using get_pixel_colour_in_range [OF assms, of ipt] by blast
qed

theorem sampling_stays_inside_image_witness:
  "equirect_image \<lparr> im_width = 4, im_height = 2, im_pixel = (\<lambda>x y. (x, y, 255)) \<rparr> 4
   \<and> (\<exists>cx cy. clamp (- 7, 9) 4 = Some (cx, cy)
            \<and> 0 \<le> cx \<and> cx < 4 \<and> 0 \<le> cy \<and> cy \<le> 4 div 2 - 1
            \<and> pixel_access \<lparr> im_width = 4, im_height = 2, im_pixel = (\<lambda>x y. (x, y, 255)) \<rparr>
                 (cx, cy) \<noteq> None
            \<and> get_pixel_colour (- 7, 9)
                 \<lparr> im_width = 4, im_height = 2, im_pixel = (\<lambda>x y. (x, y, 255)) \<rparr> 4 \<noteq> None)
   \<and> (\<exists>c. get_interpolated_pixel_colour (1000.5, - 3)
              \<lparr> im_width = 4, im_height = 2, im_pixel = (\<lambda>x y. (x, y, 255)) \<rparr> 4 = Some c)"
proof -
  have e: "equirect_image \<lparr> im_width = 4, im_height = 2, im_pixel = (\<lambda>x y. (x, y, 255)) \<rparr> 4"
    by (simp add: equirect_image_def)
  show ?thesis
    using e sampling_stays_inside_image [OF e, of "(- 7, 9)" "(1000.5, - 3)"] by force
qed



subsection \<open>Longitude shift\<close>

lemma rotate_equirect_image_size:
  "im_width (rotate_equirect_image s_img from_x to_x) = im_width s_img"
  "im_height (rotate_equirect_image s_img from_x to_x) = im_height s_img"
  by (simp_all add: rotate_equirect_image_def Let_def image_paste_def image_new_def split: prod.splits)

lemma rotate_equirect_image_400_100_pixel:
  assumes w: "300 \<le> im_width s_img" and i: "0 \<le> i" "i < im_width s_img"
    and j: "0 \<le> j" "j < im_height s_img"
  shows "im_pixel (rotate_equirect_image s_img 400 100) i j =
         (if i < im_width s_img - 300 then im_pixel s_img (300 + i) j
          else im_pixel s_img (i - (im_width s_img - 300)) j)"
  using assms
  by (simp add: rotate_equirect_image_def Let_def image_paste_def image_new_def image_crop_def
        pixel_access_def)

lemma shifted_column:
  fixes x w :: int
  assumes "300 \<le> w" "0 \<le> x" "x < w"
  shows "(x - 300) mod w = (if 300 \<le> x then x - 300 else x - 300 + w)"
proof (cases "300 \<le> x")
  case True
  then show ?thesis using assms by simp
next
  case False
  have "(x - 300 + w) mod w = (x - 300) mod w" by (rule mod_add_self2)
  moreover have "(x - 300 + w) mod w = x - 300 + w"
    using assms False by (intro mod_pos_pos_trivial) simp_all
  ultimately have "(x - 300) mod w = x - 300 + w" by (rule trans [OF sym])
  then show ?thesis using False by (simp only: if_False)
qed

lemma rotate_equirect_image_400_100_shift:
  assumes w: "300 \<le> im_width s_img" and x: "0 \<le> x" "x < im_width s_img"
    and y: "0 \<le> y" "y < im_height s_img"
  shows "im_width (rotate_equirect_image s_img 400 100) = im_width s_img
       \<and> im_height (rotate_equirect_image s_img 400 100) = im_height s_img
       \<and> pixel_access (rotate_equirect_image s_img 400 100) ((x - 300) mod im_width s_img, y)
           = pixel_access s_img (x, y)"
proof -
  define c where "c = (x - 300) mod im_width s_img"
  have c: "c = (if 300 \<le> x then x - 300 else x - 300 + im_width s_img)"
    unfolding c_def by (rule shifted_column [OF w x])
  then have r: "0 \<le> c" "c < im_width s_img" using w x by (simp_all split: if_splits)
  have "im_pixel (rotate_equirect_image s_img 400 100) c y = im_pixel s_img x y"
    unfolding rotate_equirect_image_400_100_pixel [OF w r y] using c w x by (simp split: if_splits)
  then show ?thesis
    using r x y by (simp add: pixel_access_def rotate_equirect_image_size flip: c_def)
qed


text \<open>
  C9. As stated the claim fails for an image narrower than 300 columns: the right slice
  is empty, the left slice covers the whole image, and the output is the input, not
  shifted. On a 200 x 100 image whose pixel in column \<open>x\<close> is \<open>(x, 0, 0)\<close>, the output
  column \<open>(0 - 300) mod 200 = 100\<close> holds \<open>(100, 0, 0)\<close>, and the input column 0 holds
  \<open>(0, 0, 0)\<close>.
\<close>

theorem rotate_equirect_image_narrow_image:
  "pixel_access
     (rotate_equirect_image
        \<lparr> im_width = 200, im_height = 100, im_pixel = (\<lambda>x y. (x, 0, 0)) \<rparr> 400 100)
     ((0 - 300) mod 200, 0) = Some (100, 0, 0)
   \<and> pixel_access \<lparr> im_width = 200, im_height = 100, im_pixel = (\<lambda>x y. (x, 0, 0)) \<rparr> (0, 0)
       = Some (0, 0, 0)"
  by (simp add: rotate_equirect_image_def Let_def image_paste_def image_new_def image_crop_def
        pixel_access_def)

text \<open>
  C9, amended. \<open>rotate_equirect_image\<close> applied with \<open>from_x = 400\<close>, \<open>to_x = 100\<close> to a
  \<open>W x H\<close> image with \<open>W \<ge> 300\<close> produces a \<open>W x H\<close> image in which, for every column index
  \<open>x\<close> and every row, column \<open>(x - 300) mod W\<close> of the output equals column \<open>x\<close> of the
  input.
\<close>

theorem rotate_equirect_image_400_100_columns:
  assumes "300 \<le> im_width s_img" and "0 \<le> x" and "x < im_width s_img"
    and "0 \<le> y" and "y < im_height s_img"
  shows "im_width (rotate_equirect_image s_img 400 100) = im_width s_img
       \<and> im_height (rotate_equirect_image s_img 400 100) = im_height s_img
       \<and> pixel_access (rotate_equirect_image s_img 400 100) ((x - 300) mod im_width s_img, y)
           = pixel_access s_img (x, y)"
  using assms by (rule rotate_equirect_image_400_100_shift)

theorem rotate_equirect_image_400_100_columns_witness:
  "pixel_access
     (rotate_equirect_image
        \<lparr> im_width = 720, im_height = 360, im_pixel = (\<lambda>x y. (x mod 256, y mod 256, 0)) \<rparr>
        400 100)
     ((10 - 300) mod 720, 5)
   = pixel_access
       \<lparr> im_width = 720, im_height = 360, im_pixel = (\<lambda>x y. (x mod 256, y mod 256, 0)) \<rparr>
       (10, 5)
   \<and> (10 - 300) mod 720 = (430 :: int)"
  using rotate_equirect_image_400_100_columns
    [of "\<lparr> im_width = 720, im_height = 360, im_pixel = (\<lambda>x y. (x mod 256, y mod 256, 0)) \<rparr>" 10 5]
  by simp

end
